theory Spec2Isabelle
  imports Complex_Main "HOL-Library.Log_Nat"
begin

section \<open>Conventions\<close>

text \<open>
  The development embeds the classes of \<^verbatim>\<open>src/js/main.js\<close> that carry state:
  \<^verbatim>\<open>ThemeManager\<close>, \<^verbatim>\<open>NavigationManager\<close>, \<^verbatim>\<open>TypingAnimation\<close>,
  \<^verbatim>\<open>ScrollAnimations\<close>, \<^verbatim>\<open>StatsCounter\<close>, \<^verbatim>\<open>SkillBars\<close>, \<^verbatim>\<open>ContactForm\<close>
  and \<^verbatim>\<open>LazyLoader\<close>. Every method becomes a function that takes the object (and the part
  of the page it touches) as a record and returns the record updated. Every event handler
  registered by the source is a function of its own; the browser is the caller.

  JavaScript strings are modelled as \<^typ>\<open>string\<close>, one \<^typ>\<open>char\<close> per code unit below 256.
  Indices, delays and pixel coordinates are modelled as \<^typ>\<open>int\<close> or \<^typ>\<open>nat\<close>. The numbers
  of the counter animation, whose size the page decides, are modelled as the rationals
  that IEEE doubles hold, every operation rounding its exact result to the nearest double.
  DOM elements are named by natural numbers.
\<close>

section \<open>ThemeManager\<close>

text \<open>
  \<open>storage\<close> is the entry \<^verbatim>\<open>portfolio-theme\<close> of \<^verbatim>\<open>localStorage\<close>
  (\<open>None\<close>: \<^verbatim>\<open>getItem\<close> returns \<^verbatim>\<open>null\<close>), \<open>dataTheme\<close> the attribute
  \<^verbatim>\<open>data-theme\<close> of the document element, \<open>currentTheme\<close> the field of the manager.
\<close>

record themeManager =
  storage :: "string option"
  dataTheme :: "string option"
  currentTheme :: string

text \<open>Truthiness of what \<^verbatim>\<open>getItem\<close> returns: \<^verbatim>\<open>null\<close> and the empty string are falsy.\<close>

fun truthy :: "string option \<Rightarrow> bool" where
  "truthy None = False"
| "truthy (Some s) = (s \<noteq> [])"

definition getStoredTheme :: "themeManager \<Rightarrow> string option" where
  "getStoredTheme tm = storage tm"

text \<open>The argument is \<^verbatim>\<open>matchMedia('(prefers-color-scheme: dark)').matches\<close>.\<close>

definition getSystemTheme :: "bool \<Rightarrow> string" where
  "getSystemTheme prefersDark = (if prefersDark then ''dark'' else ''light'')"

text \<open>
  \<^verbatim>\<open>updateIcon\<close> and \<^verbatim>\<open>announceThemeChange\<close> touch the toggle buttons and a transient
  live region only, and are left out.
\<close>

definition setTheme :: "string \<Rightarrow> themeManager \<Rightarrow> themeManager" where
  "setTheme theme tm = tm\<lparr>currentTheme := theme, dataTheme := Some theme, storage := Some theme\<rparr>"

definition toggleTheme :: "themeManager \<Rightarrow> themeManager" where
  "toggleTheme tm = setTheme (if currentTheme tm = ''dark'' then ''light'' else ''dark'') tm"

text \<open>
  The constructor followed by \<^verbatim>\<open>init\<close>, on a page whose storage entry and attribute are
  \<open>stored\<close> and \<open>attr\<close>: \<^verbatim>\<open>this.getStoredTheme() || this.getSystemTheme()\<close>, then
  \<^verbatim>\<open>setTheme\<close>.
\<close>

definition ThemeManager :: "bool \<Rightarrow> string option \<Rightarrow> string option \<Rightarrow> themeManager" where
  "ThemeManager prefersDark stored attr =
     (let page = \<lparr>storage = stored, dataTheme = attr, currentTheme = []\<rparr>;
          theme = (case getStoredTheme page of
                     Some s \<Rightarrow> if truthy (Some s) then s else getSystemTheme prefersDark
                   | None \<Rightarrow> getSystemTheme prefersDark)
      in setTheme theme (page\<lparr>currentTheme := theme\<rparr>))"

text \<open>The listener for \<^verbatim>\<open>change\<close> on the colour-scheme media query; \<open>matches\<close> is \<^verbatim>\<open>e.matches\<close>.\<close>

definition systemThemeChange :: "bool \<Rightarrow> themeManager \<Rightarrow> themeManager" where
  "systemThemeChange matches tm =
     (if \<not> truthy (getStoredTheme tm) then setTheme (if matches then ''dark'' else ''light'') tm
      else tm)"

section \<open>NavigationManager\<close>

text \<open>
  \<open>navToggle\<close> and \<open>navMenu\<close> say whether the two elements exist. The remaining fields are
  the DOM state that \<^verbatim>\<open>toggleMobileMenu\<close> writes: the class \<^verbatim>\<open>active\<close> on both
  elements, the two ARIA attributes, \<^verbatim>\<open>body.style.overflow\<close> and the focused element.
\<close>

datatype place = OnMenu | OnToggle | Elsewhere

record navigationManager =
  navToggle :: bool
  navMenu :: bool
  isMenuOpen :: bool
  menuActive :: bool
  toggleActive :: bool
  ariaExpanded :: bool
  ariaHidden :: bool
  bodyOverflow :: string
  focused :: place

definition toggleMobileMenu :: "navigationManager \<Rightarrow> navigationManager" where
  "toggleMobileMenu nm =
     (let opened = \<not> isMenuOpen nm
      in nm\<lparr>isMenuOpen := opened, menuActive := opened, toggleActive := opened,
            ariaExpanded := opened, ariaHidden := \<not> opened,
            bodyOverflow := (if opened then ''hidden'' else []),
            focused := (if opened then OnMenu else OnToggle)\<rparr>)"

definition closeMobileMenu :: "navigationManager \<Rightarrow> navigationManager" where
  "closeMobileMenu nm = (if isMenuOpen nm then toggleMobileMenu nm else nm)"

text \<open>\<^verbatim>\<open>Utils.getViewportSize\<close> with the breakpoints of \<^verbatim>\<open>CONFIG\<close>.\<close>

definition getViewportSize :: "int \<Rightarrow> string" where
  "getViewportSize width =
     (if width \<le> 480 then ''mobile''
      else if width \<le> 768 then ''tablet''
      else if width \<le> 1024 then ''desktop''
      else ''large'')"

text \<open>
  The three listeners of \<^verbatim>\<open>bindEvents\<close> the menu depends on. The first two are registered
  only when both elements exist. \<open>clickOn\<close> is where the click target lies: inside the
  menu, inside the toggle, or in neither. \<open>handleResize\<close> is the body that the debounce
  wrapper runs once the resizing has settled at \<open>width\<close>.
\<close>

definition documentKeydown :: "string \<Rightarrow> navigationManager \<Rightarrow> navigationManager" where
  "documentKeydown key nm =
     (if navToggle nm \<and> navMenu nm then
        (if key = ''Escape'' \<and> isMenuOpen nm then closeMobileMenu nm else nm)
      else nm)"

definition documentClick :: "place \<Rightarrow> navigationManager \<Rightarrow> navigationManager" where
  "documentClick clickOn nm =
     (if navToggle nm \<and> navMenu nm then
        (if isMenuOpen nm \<and> clickOn \<noteq> OnMenu \<and> clickOn \<noteq> OnToggle then closeMobileMenu nm
         else nm)
      else nm)"

definition handleResize :: "int \<Rightarrow> navigationManager \<Rightarrow> navigationManager" where
  "handleResize width nm =
     (if getViewportSize width \<noteq> ''mobile'' \<and> isMenuOpen nm then closeMobileMenu nm else nm)"

text \<open>The manager as the constructor leaves it; the arguments say which elements the page has.\<close>

definition NavigationManager :: "bool \<Rightarrow> bool \<Rightarrow> navigationManager" where
  "NavigationManager hasToggle hasMenu =
     \<lparr>navToggle = hasToggle, navMenu = hasMenu, isMenuOpen = False, menuActive = False,
      toggleActive = False, ariaExpanded = False, ariaHidden = True, bodyOverflow = [],
      focused = Elsewhere\<rparr>"

section \<open>TypingAnimation\<close>

text \<open>
  \<open>textContent\<close> is the text of the target element and \<open>pendingTimeout\<close> the delay of the
  one \<^verbatim>\<open>setTimeout\<close> that is outstanding, if any. The delays are those of
  \<^verbatim>\<open>CONFIG.TIMING\<close>.
\<close>

record typingAnimation =
  texts :: "string list"
  currentTextIndex :: nat
  currentCharIndex :: int
  isDeleting :: bool
  isPaused :: bool
  textContent :: string
  pendingTimeout :: "nat option"

definition typingSpeed :: nat where "typingSpeed = 100"
definition typingDeleteSpeed :: nat where "typingDeleteSpeed = 50"
definition typingPause :: nat where "typingPause = 2000"

text \<open>\<^verbatim>\<open>s.substring(0, n)\<close>: a negative \<open>n\<close> counts as 0, one beyond the end as the length.\<close>

definition substring0 :: "string \<Rightarrow> int \<Rightarrow> string" where
  "substring0 s n = take (nat n) s"

text \<open>
  One call of \<^verbatim>\<open>type\<close>. \<open>None\<close> is the \<^verbatim>\<open>TypeError\<close> raised when
  \<^verbatim>\<open>this.texts[this.currentTextIndex]\<close> is \<^verbatim>\<open>undefined\<close>. The field \<open>isPaused\<close> is
  written and never read.
\<close>

definition type :: "typingAnimation \<Rightarrow> typingAnimation option" where
  "type ta =
     (if currentTextIndex ta < length (texts ta) then
        (let currentText = texts ta ! currentTextIndex ta;
             charIndex = (if isDeleting ta then currentCharIndex ta - 1
                          else currentCharIndex ta + 1);
             ta1 = ta\<lparr>currentCharIndex := charIndex,
                      textContent := substring0 currentText charIndex\<rparr>;
             typeSpeed = (if isDeleting ta then typingDeleteSpeed else typingSpeed)
         in if \<not> isDeleting ta \<and> charIndex = int (length currentText) then
              Some (ta1\<lparr>isPaused := True, isDeleting := True,
                        pendingTimeout := Some typingPause\<rparr>)
            else if isDeleting ta \<and> charIndex = 0 then
              Some (ta1\<lparr>isDeleting := False,
                        currentTextIndex := (currentTextIndex ta + 1) mod length (texts ta),
                        pendingTimeout := Some typeSpeed\<rparr>)
            else Some (ta1\<lparr>pendingTimeout := Some typeSpeed\<rparr>))
      else None)"

text \<open>
  \<^verbatim>\<open>start\<close>; the argument is \<^verbatim>\<open>Utils.prefersReducedMotion()\<close>. Assigning
  \<^verbatim>\<open>undefined\<close> to \<^verbatim>\<open>textContent\<close> empties the element.
\<close>

definition start :: "bool \<Rightarrow> typingAnimation \<Rightarrow> typingAnimation option" where
  "start reducedMotion ta =
     (if reducedMotion then
        Some (ta\<lparr>textContent := (case texts ta of [] \<Rightarrow> [] | t # _ \<Rightarrow> t)\<rparr>)
      else type ta)"

text \<open>The constructor, for an element that exists and an explicit phrase list.\<close>

definition TypingAnimation :: "bool \<Rightarrow> string \<Rightarrow> string list \<Rightarrow> typingAnimation option" where
  "TypingAnimation reducedMotion initialText phrases =
     start reducedMotion
       \<lparr>texts = phrases, currentTextIndex = 0, currentCharIndex = 0, isDeleting = False,
        isPaused = False, textContent = initialText, pendingTimeout = None\<rparr>"

text \<open>
  The timer fires: the callback \<^verbatim>\<open>() => this.type()\<close> runs if a timeout is outstanding;
  otherwise there is nothing to run.
\<close>

definition timerFires :: "typingAnimation \<Rightarrow> typingAnimation option" where
  "timerFires ta = (case pendingTimeout ta of None \<Rightarrow> Some ta | Some d \<Rightarrow> type ta)"

fun ticks :: "nat \<Rightarrow> typingAnimation \<Rightarrow> typingAnimation option" where
  "ticks 0 ta = Some ta"
| "ticks (Suc n) ta = (case timerFires ta of None \<Rightarrow> None | Some ta' \<Rightarrow> ticks n ta')"

text \<open>\<^verbatim>\<open>PortfolioApp.pauseAnimations\<close> and \<^verbatim>\<open>resumeAnimations\<close>, on the typing animation.\<close>

definition pauseAnimations :: "typingAnimation \<Rightarrow> typingAnimation" where
  "pauseAnimations ta = ta\<lparr>isPaused := True\<rparr>"

definition resumeAnimations :: "typingAnimation \<Rightarrow> typingAnimation" where
  "resumeAnimations ta = ta\<lparr>isPaused := False\<rparr>"

section \<open>StatsCounter.animateCounter\<close>

subsection \<open>Numbers\<close>

text \<open>
  A finite double is a rational \<open>m * 2 ^ e\<close> with \<open>\<bar>m\<bar> < 2 ^ 53\<close>. \<open>roundDouble\<close> maps
  the exact result of an operation to the double that the operation returns: the nearest
  one, the one with the even significand when two are equally near. \<open>exponent x\<close> is the
  \<open>e\<close> with \<open>2 ^ e \<le> x < 2 ^ (e + 1)\<close>, and \<open>twoPow\<close> the power of two with an integer
  exponent. Subnormal numbers and overflow are left out: the counter compares its sum with
  the target and stops as soon as the sum is not smaller, which an overflowing sum is as
  well as its rounded value.
\<close>

definition twoPow :: "int \<Rightarrow> rat" where
  "twoPow k = (if 0 \<le> k then 2 ^ nat k else 1 / 2 ^ nat (- k))"

definition exponent :: "rat \<Rightarrow> int" where
  "exponent x =
     (if 1 \<le> x then bitlen \<lfloor>x\<rfloor> - 1 else - bitlen (\<lceil>1 / x\<rceil> - 1))"

definition roundHalfEven :: "rat \<Rightarrow> int" where
  "roundHalfEven m =
     (let f = \<lfloor>m\<rfloor>; d = m - of_int f
      in if d < 1 / 2 then f else if 1 / 2 < d then f + 1 else if even f then f else f + 1)"

definition roundDouble :: "rat \<Rightarrow> rat" where
  "roundDouble x =
     (if x = 0 then 0
      else (let a = \<bar>x\<bar>; ulp = twoPow (exponent a - 52);
                r = of_int (roundHalfEven (a / ulp)) * ulp
            in if x < 0 then - r else r))"

subsection \<open>The animation\<close>

text \<open>\<^verbatim>\<open>Math.ceil(target / 100)\<close>: the division rounds, the ceiling is exact.\<close>

definition ceil100 :: "rat \<Rightarrow> rat" where
  "ceil100 target = of_int \<lceil>roundDouble (target / 100)\<rceil>"

text \<open>
  The closure \<^verbatim>\<open>updateCounter\<close>, one call per animation frame. \<open>shown\<close> collects the
  values written to \<^verbatim>\<open>element.textContent\<close>, oldest first. A run that asks for a next
  frame forever has no result.
\<close>

partial_function (option) updateCounter :: "rat \<Rightarrow> rat \<Rightarrow> rat \<Rightarrow> rat list \<Rightarrow> rat list option" where
  "updateCounter target increment current shown =
     (let current' = roundDouble (current + increment)
      in if current' \<ge> target then Some (shown @ [target])
         else updateCounter target increment current' (shown @ [current']))"

text \<open>
  \<open>dataCount\<close> is the integer whose decimal digits the attribute \<^verbatim>\<open>data-count\<close> holds;
  \<^verbatim>\<open>parseInt\<close> returns the double nearest to it.
\<close>

definition animateCounter :: "int \<Rightarrow> rat list option" where
  "animateCounter dataCount =
     (let target = roundDouble (of_int dataCount)
      in updateCounter target (ceil100 target) 0 [])"

section \<open>The reveal-on-scroll family\<close>

text \<open>
  An \<^verbatim>\<open>IntersectionObserverEntry\<close> is the pair of \<^verbatim>\<open>entry.target\<close> and
  \<^verbatim>\<open>entry.isIntersecting\<close>. A \<open>viewport\<close> is what \<^verbatim>\<open>Utils.isInViewport\<close> reads at one
  moment: the bounding rectangle of every element and the size of the window.
\<close>

type_synonym entry = "nat \<times> bool"

record rect =
  rtop :: int
  rbottom :: int
  rleft :: int
  rright :: int

record viewport =
  boundingRect :: "nat \<Rightarrow> rect"
  innerHeight :: int
  innerWidth :: int

definition isInViewport :: "viewport \<Rightarrow> nat \<Rightarrow> int \<Rightarrow> bool" where
  "isInViewport vp element offset =
     (let r = boundingRect vp element
      in rtop r \<le> innerHeight vp - offset \<and> rbottom r \<ge> offset \<and>
         rleft r \<le> innerWidth vp \<and> rright r \<ge> 0)"

text \<open>
  What the browser does to a controller: it calls the observer callback with a batch of
  entries, or it runs the scroll handler on the current viewport (\<^verbatim>\<open>Utils.throttle\<close>
  decides how often). The threshold and the root margin handed to the observer decide when
  the browser reports an entry as intersecting; they do not occur in the callbacks.
\<close>

datatype event = Intersection "entry list" | Scroll viewport

subsection \<open>ScrollAnimations\<close>

text \<open>
  \<open>observedTargets\<close> are the targets of the \<^verbatim>\<open>IntersectionObserver\<close>, \<open>observedElements\<close>
  is the field of that name, \<open>revealPolling\<close> says whether the scroll listener of
  \<^verbatim>\<open>fallbackAnimation\<close> is registered. \<open>animated\<close> holds the elements that carry the class
  \<^verbatim>\<open>animated\<close>, \<open>staggerTimers\<close> the outstanding timeouts (child, delay), and
  \<open>animateCalls\<close> the arguments of the calls of \<^verbatim>\<open>animateElement\<close>, oldest first.
  \<open>children\<close> gives the stagger children that \<^verbatim>\<open>querySelectorAll\<close> finds in an element.
\<close>

record scrollAnimations =
  animatedElements :: "nat list"
  observedElements :: "nat set"
  observedTargets :: "nat set"
  revealPolling :: bool
  animated :: "nat set"
  staggerTimers :: "(nat \<times> nat) list"
  animateCalls :: "nat list"

definition animateElement :: "(nat \<Rightarrow> nat list) \<Rightarrow> nat \<Rightarrow> scrollAnimations \<Rightarrow> scrollAnimations" where
  "animateElement children element sa =
     sa\<lparr>animated := insert element (animated sa),
        staggerTimers := staggerTimers sa @
          map (\<lambda>(index, child). (child, index * 100)) (enumerate 0 (children element)),
        animateCalls := animateCalls sa @ [element]\<rparr>"

definition ScrollAnimations_callback ::
  "(nat \<Rightarrow> nat list) \<Rightarrow> entry list \<Rightarrow> scrollAnimations \<Rightarrow> scrollAnimations" where
  "ScrollAnimations_callback children entries sa =
     fold (\<lambda>(target, isIntersecting) sa.
             if isIntersecting then
               (let sa1 = animateElement children target sa
                in sa1\<lparr>observedTargets := observedTargets sa1 - {target},
                       observedElements := observedElements sa1 - {target}\<rparr>)
             else sa)
          entries sa"

definition ScrollAnimations_setupIntersectionObserver :: "scrollAnimations \<Rightarrow> scrollAnimations" where
  "ScrollAnimations_setupIntersectionObserver sa =
     fold (\<lambda>el sa. sa\<lparr>observedTargets := insert el (observedTargets sa),
                       observedElements := insert el (observedElements sa)\<rparr>)
          (animatedElements sa) sa"

definition ScrollAnimations_handleScroll ::
  "(nat \<Rightarrow> nat list) \<Rightarrow> viewport \<Rightarrow> scrollAnimations \<Rightarrow> scrollAnimations" where
  "ScrollAnimations_handleScroll children vp sa =
     fold (\<lambda>element sa. if isInViewport vp element 50 then animateElement children element sa
                         else sa)
          (animatedElements sa) sa"

definition ScrollAnimations_fallbackAnimation ::
  "(nat \<Rightarrow> nat list) \<Rightarrow> viewport \<Rightarrow> scrollAnimations \<Rightarrow> scrollAnimations" where
  "ScrollAnimations_fallbackAnimation children vp sa =
     ScrollAnimations_handleScroll children vp (sa\<lparr>revealPolling := True\<rparr>)"

text \<open>
  The constructor and \<^verbatim>\<open>init\<close>: \<open>hasObserver\<close> is
  \<^verbatim>\<open>'IntersectionObserver' in window\<close>, \<open>vp\<close> the viewport at that moment.
\<close>

definition ScrollAnimations ::
  "bool \<Rightarrow> bool \<Rightarrow> (nat \<Rightarrow> nat list) \<Rightarrow> viewport \<Rightarrow> nat list \<Rightarrow> scrollAnimations" where
  "ScrollAnimations reducedMotion hasObserver children vp elements =
     (let sa = \<lparr>animatedElements = elements, observedElements = {}, observedTargets = {},
                revealPolling = False, animated = {}, staggerTimers = [], animateCalls = []\<rparr>
      in if reducedMotion then sa
         else if hasObserver then ScrollAnimations_setupIntersectionObserver sa
         else ScrollAnimations_fallbackAnimation children vp sa)"

text \<open>The browser reports on observed targets only, and scrolls reach a registered listener only.\<close>

fun ScrollAnimations_step ::
  "(nat \<Rightarrow> nat list) \<Rightarrow> event \<Rightarrow> scrollAnimations \<Rightarrow> scrollAnimations" where
  "ScrollAnimations_step children (Intersection entries) sa =
     ScrollAnimations_callback children
       (filter (\<lambda>e. fst e \<in> observedTargets sa) entries) sa"
| "ScrollAnimations_step children (Scroll vp) sa =
     (if revealPolling sa then ScrollAnimations_handleScroll children vp sa else sa)"

subsection \<open>StatsCounter\<close>

text \<open>
  \<open>counterCalls\<close> holds the arguments of the calls of \<^verbatim>\<open>animateCounter\<close>, oldest first;
  what one call displays is \<^const>\<open>animateCounter\<close> above.
\<close>

record statsCounter =
  statElements :: "nat list"
  animatedStats :: "nat set"
  statTargets :: "nat set"
  statPolling :: bool
  counterCalls :: "nat list"

definition StatsCounter_callback :: "entry list \<Rightarrow> statsCounter \<Rightarrow> statsCounter" where
  "StatsCounter_callback entries sc =
     fold (\<lambda>(target, isIntersecting) sc.
             if isIntersecting \<and> target \<notin> animatedStats sc then
               sc\<lparr>counterCalls := counterCalls sc @ [target],
                  animatedStats := insert target (animatedStats sc),
                  statTargets := statTargets sc - {target}\<rparr>
             else sc)
          entries sc"

definition StatsCounter_setupIntersectionObserver :: "statsCounter \<Rightarrow> statsCounter" where
  "StatsCounter_setupIntersectionObserver sc =
     fold (\<lambda>stat sc. sc\<lparr>statTargets := insert stat (statTargets sc)\<rparr>) (statElements sc) sc"

definition StatsCounter_handleScroll :: "viewport \<Rightarrow> statsCounter \<Rightarrow> statsCounter" where
  "StatsCounter_handleScroll vp sc =
     fold (\<lambda>element sc.
             if isInViewport vp element 50 \<and> element \<notin> animatedStats sc then
               sc\<lparr>counterCalls := counterCalls sc @ [element],
                  animatedStats := insert element (animatedStats sc)\<rparr>
             else sc)
          (statElements sc) sc"

definition fallbackCounter :: "statsCounter \<Rightarrow> statsCounter" where
  "fallbackCounter sc = sc\<lparr>statPolling := True\<rparr>"

definition StatsCounter :: "bool \<Rightarrow> bool \<Rightarrow> nat list \<Rightarrow> statsCounter" where
  "StatsCounter reducedMotion hasObserver elements =
     (let sc = \<lparr>statElements = elements, animatedStats = {}, statTargets = {},
                statPolling = False, counterCalls = []\<rparr>
      in if reducedMotion then sc
         else if hasObserver then StatsCounter_setupIntersectionObserver sc
         else fallbackCounter sc)"

fun StatsCounter_step :: "event \<Rightarrow> statsCounter \<Rightarrow> statsCounter" where
  "StatsCounter_step (Intersection entries) sc =
     StatsCounter_callback (filter (\<lambda>e. fst e \<in> statTargets sc) entries) sc"
| "StatsCounter_step (Scroll vp) sc =
     (if statPolling sc then StatsCounter_handleScroll vp sc else sc)"

subsection \<open>SkillBars\<close>

text \<open>
  \<open>widthTimers\<close> holds the arguments of the calls of \<^verbatim>\<open>animateSkillBar\<close>, oldest first:
  each call schedules one timeout that sets the width of the bar.
\<close>

record skillBars =
  bars :: "nat list"
  animatedBars :: "nat set"
  barTargets :: "nat set"
  barPolling :: bool
  widthTimers :: "nat list"

definition SkillBars_callback :: "entry list \<Rightarrow> skillBars \<Rightarrow> skillBars" where
  "SkillBars_callback entries sb =
     fold (\<lambda>(target, isIntersecting) sb.
             if isIntersecting \<and> target \<notin> animatedBars sb then
               sb\<lparr>widthTimers := widthTimers sb @ [target],
                  animatedBars := insert target (animatedBars sb),
                  barTargets := barTargets sb - {target}\<rparr>
             else sb)
          entries sb"

definition SkillBars_setupIntersectionObserver :: "skillBars \<Rightarrow> skillBars" where
  "SkillBars_setupIntersectionObserver sb =
     fold (\<lambda>bar sb. sb\<lparr>barTargets := insert bar (barTargets sb)\<rparr>) (bars sb) sb"

definition SkillBars_handleScroll :: "viewport \<Rightarrow> skillBars \<Rightarrow> skillBars" where
  "SkillBars_handleScroll vp sb =
     fold (\<lambda>bar sb.
             if isInViewport vp bar 50 \<and> bar \<notin> animatedBars sb then
               sb\<lparr>widthTimers := widthTimers sb @ [bar],
                  animatedBars := insert bar (animatedBars sb)\<rparr>
             else sb)
          (bars sb) sb"

definition SkillBars_fallbackAnimation :: "skillBars \<Rightarrow> skillBars" where
  "SkillBars_fallbackAnimation sb = sb\<lparr>barPolling := True\<rparr>"

definition SkillBars :: "bool \<Rightarrow> bool \<Rightarrow> nat list \<Rightarrow> skillBars" where
  "SkillBars reducedMotion hasObserver elements =
     (let sb = \<lparr>bars = elements, animatedBars = {}, barTargets = {},
                barPolling = False, widthTimers = []\<rparr>
      in if reducedMotion then sb
         else if hasObserver then SkillBars_setupIntersectionObserver sb
         else SkillBars_fallbackAnimation sb)"

fun SkillBars_step :: "event \<Rightarrow> skillBars \<Rightarrow> skillBars" where
  "SkillBars_step (Intersection entries) sb =
     SkillBars_callback (filter (\<lambda>e. fst e \<in> barTargets sb) entries) sb"
| "SkillBars_step (Scroll vp) sb =
     (if barPolling sb then SkillBars_handleScroll vp sb else sb)"

section \<open>ContactForm\<close>

subsection \<open>The regular expressions of \<^verbatim>\<open>setupValidation\<close>\<close>

text \<open>
  Both expressions are anchored sequences of literal characters and character classes
  under \<^verbatim>\<open>+\<close>; \<open>regexTest\<close> says whether the whole string matches such a sequence.
\<close>

datatype atom = Lit char | Plus "char \<Rightarrow> bool"

fun regexTest :: "atom list \<Rightarrow> string \<Rightarrow> bool" where
  "regexTest [] s = (s = [])"
| "regexTest (Lit c # r) [] = False"
| "regexTest (Lit c # r) (x # xs) = (x = c \<and> regexTest r xs)"
| "regexTest (Plus p # r) [] = False"
| "regexTest (Plus p # r) (x # xs) = (p x \<and> (regexTest r xs \<or> regexTest (Plus p # r) xs))"

text \<open>\<^verbatim>\<open>\s\<close> and the characters that \<^verbatim>\<open>trim\<close> strips, below 256; \<^verbatim>\<open>\d\<close>.\<close>

definition isSpace :: "char \<Rightarrow> bool" where
  "isSpace c = ((of_char c :: nat) \<in> {9, 10, 11, 12, 13, 32, 160})"

definition isDigit :: "char \<Rightarrow> bool" where
  "isDigit c = (48 \<le> (of_char c :: nat) \<and> (of_char c :: nat) \<le> 57)"

definition trim :: "string \<Rightarrow> string" where
  "trim s = rev (dropWhile isSpace (rev (dropWhile isSpace s)))"

text \<open>\<^verbatim>\<open>/^[^\s@]+@[^\s@]+\.[^\s@]+$/\<close>\<close>

definition emailRegex :: "atom list" where
  "emailRegex =
     (let c = (\<lambda>x. \<not> isSpace x \<and> x \<noteq> CHR ''@'')
      in [Plus c, Lit CHR ''@'', Plus c, Lit CHR ''.'', Plus c])"

text \<open>\<^verbatim>\<open>/^[\d\s\-\+\(\)]+$/\<close>\<close>

definition phoneRegex :: "atom list" where
  "phoneRegex =
     [Plus (\<lambda>x. isDigit x \<or> isSpace x \<or> x = CHR ''-'' \<or> x = CHR ''+'' \<or> x = CHR ''('' \<or>
                 x = CHR '')'')]"

definition validators_email :: "string \<Rightarrow> bool" where
  "validators_email v = regexTest emailRegex v"

definition validators_phone :: "string \<Rightarrow> bool" where
  "validators_phone v = (v = [] \<or> regexTest phoneRegex v)"

definition validators_required :: "string \<Rightarrow> bool" where
  "validators_required v = (length (trim v) > 0)"

subsection \<open>Fields and the form\<close>

text \<open>
  A field is an \<^verbatim>\<open>input\<close> or \<^verbatim>\<open>textarea\<close> of the form. \<open>fieldType\<close> is
  \<^verbatim>\<open>field.type || field.tagName.toLowerCase()\<close>, \<open>hasError\<close> the class \<^verbatim>\<open>error\<close> on
  the field, and \<open>errorElement\<close> the text of the \<^verbatim>\<open>.form-error\<close> element beside it
  (\<open>None\<close>: there is none).
\<close>

record formField =
  fieldValue :: string
  defaultValue :: string
  required :: bool
  fieldType :: string
  fieldName :: string
  hasError :: bool
  errorElement :: "string option"

definition validateField :: "formField \<Rightarrow> bool \<times> formField" where
  "validateField f =
     (let v = trim (fieldValue f);
          (isValid, errorMessage) =
            (if required f \<and> v = [] then (False, ''This field is required'')
             else if v \<noteq> [] then
               (if fieldType f = ''email'' \<and> \<not> validators_email v then
                  (False, ''Please enter a valid email address'')
                else if fieldName f = ''phone'' \<and> \<not> validators_phone v then
                  (False, ''Please enter a valid phone number'')
                else (True, []))
             else (True, []))
      in (isValid,
          f\<lparr>hasError := \<not> isValid,
            errorElement := (case errorElement f of None \<Rightarrow> None | Some old \<Rightarrow> Some errorMessage)\<rparr>))"

text \<open>
  \<open>notifications\<close> are the calls of \<^verbatim>\<open>showMessage\<close> (message, type), \<open>submissions\<close>
  counts the calls of \<^verbatim>\<open>simulateFormSubmission\<close>.
\<close>

record contactForm =
  formFields :: "formField list"
  notifications :: "(string \<times> string) list"
  submissions :: nat

definition clearErrors :: "formField list \<Rightarrow> formField list" where
  "clearErrors fs =
     map (\<lambda>f. f\<lparr>hasError := False,
                 errorElement := (case errorElement f of None \<Rightarrow> None | Some old \<Rightarrow> Some [])\<rparr>) fs"

text \<open>
  \<^verbatim>\<open>handleSubmit\<close>, run to its end; \<open>success\<close> is how the simulated submission comes out.
  Only the required fields are validated again. The loading state of the submit button,
  set before the submission and cleared after it, is left out.
\<close>

definition handleSubmit :: "bool \<Rightarrow> contactForm \<Rightarrow> contactForm" where
  "handleSubmit success cf =
     (let validated = map (\<lambda>f. if required f then snd (validateField f) else f) (formFields cf);
          isFormValid = list_all (\<lambda>f. fst (validateField f)) (filter required (formFields cf))
      in if \<not> isFormValid then
           cf\<lparr>formFields := validated,
              notifications := notifications cf @ [(''Please fix the errors above'', ''error'')]\<rparr>
         else if success then
           cf\<lparr>formFields := clearErrors (map (\<lambda>f. f\<lparr>fieldValue := defaultValue f\<rparr>) validated),
              notifications := notifications cf @
                [(''Thank you! Your message has been sent successfully. I'' @ [CHR 0x27] @
                  ''ll get back to you soon.'', ''success'')],
              submissions := submissions cf + 1\<rparr>
         else
           cf\<lparr>formFields := validated,
              notifications := notifications cf @
                [(''Sorry, there was an error sending your message. Please try again.'',
                  ''error'')],
              submissions := submissions cf + 1\<rparr>)"

section \<open>LazyLoader\<close>

text \<open>
  An image has its \<^verbatim>\<open>data-src\<close> attribute (\<open>None\<close>: absent), its \<^verbatim>\<open>src\<close> and its
  classes. \<open>images\<close> is the node list of the constructor, \<open>document\<close> the images of the page,
  \<open>imageTargets\<close> the targets of the observer, and \<open>preloads\<close> the \<^verbatim>\<open>Image\<close> objects
  that \<^verbatim>\<open>loadImage\<close> has created and that have neither loaded nor failed yet: the image
  each one stands for and the URL it fetches.
\<close>

record img =
  dataSrc :: "string option"
  src :: string
  classes :: "string set"

record lazyLoader =
  images :: "nat list"
  document :: "nat \<Rightarrow> img"
  imageTargets :: "nat set"
  preloads :: "(nat \<times> string) list"

definition loadImage :: "nat \<Rightarrow> lazyLoader \<Rightarrow> lazyLoader" where
  "loadImage i ll =
     (case dataSrc (document ll i) of
        None \<Rightarrow> ll
      | Some url \<Rightarrow> if url = [] then ll else ll\<lparr>preloads := preloads ll @ [(i, url)]\<rparr>)"

text \<open>The handlers \<^verbatim>\<open>newImg.onload\<close> and \<^verbatim>\<open>newImg.onerror\<close> of the preload for image \<open>i\<close>.\<close>

definition onload :: "nat \<Rightarrow> string \<Rightarrow> lazyLoader \<Rightarrow> lazyLoader" where
  "onload i url ll =
     ll\<lparr>document := (document ll)(i := (document ll i)\<lparr>src := url, dataSrc := None,
                                       classes := insert ''loaded'' (classes (document ll i))\<rparr>)\<rparr>"

definition onerror :: "nat \<Rightarrow> string \<Rightarrow> lazyLoader \<Rightarrow> lazyLoader" where
  "onerror i url ll =
     ll\<lparr>document := (document ll)(i := (document ll i)\<lparr>classes := insert ''error'' (classes (document ll i))\<rparr>)\<rparr>"

definition LazyLoader_callback :: "entry list \<Rightarrow> lazyLoader \<Rightarrow> lazyLoader" where
  "LazyLoader_callback entries ll =
     fold (\<lambda>(target, isIntersecting) ll.
             if isIntersecting then
               (let ll1 = loadImage target ll
                in ll1\<lparr>imageTargets := imageTargets ll1 - {target}\<rparr>)
             else ll)
          entries ll"

definition LazyLoader_setupIntersectionObserver :: "lazyLoader \<Rightarrow> lazyLoader" where
  "LazyLoader_setupIntersectionObserver ll =
     fold (\<lambda>i ll. ll\<lparr>imageTargets := insert i (imageTargets ll)\<rparr>) (images ll) ll"

definition fallbackLoading :: "lazyLoader \<Rightarrow> lazyLoader" where
  "fallbackLoading ll = fold loadImage (images ll) ll"

text \<open>
  The constructor and \<^verbatim>\<open>init\<close>; \<open>selected\<close> are the images that
  \<^verbatim>\<open>querySelectorAll('img[data-src]')\<close> returns on the page \<open>page\<close>.
\<close>

definition LazyLoader :: "bool \<Rightarrow> (nat \<Rightarrow> img) \<Rightarrow> nat list \<Rightarrow> lazyLoader" where
  "LazyLoader hasObserver page selected =
     (let ll = \<lparr>images = selected, document = page, imageTargets = {}, preloads = []\<rparr>
      in if selected = [] then ll
         else if hasObserver then LazyLoader_setupIntersectionObserver ll
         else fallbackLoading ll)"

text \<open>
  What the browser does to the loader: it calls the observer callback with entries for
  observed targets, or one outstanding preload finishes, with success or with an error.
\<close>

datatype imageEvent = Observed "entry list" | Loaded nat string | Failed nat string

fun LazyLoader_step :: "imageEvent \<Rightarrow> lazyLoader \<Rightarrow> lazyLoader" where
  "LazyLoader_step (Observed entries) ll =
     LazyLoader_callback (filter (\<lambda>e. fst e \<in> imageTargets ll) entries) ll"
| "LazyLoader_step (Loaded i url) ll =
     (if (i, url) \<in> set (preloads ll)
      then onload i url (ll\<lparr>preloads := remove1 (i, url) (preloads ll)\<rparr>) else ll)"
| "LazyLoader_step (Failed i url) ll =
     (if (i, url) \<in> set (preloads ll)
      then onerror i url (ll\<lparr>preloads := remove1 (i, url) (preloads ll)\<rparr>) else ll)"

text \<open>The images that some batch of the trace has reported as intersecting.\<close>

fun reportedNear :: "imageEvent list \<Rightarrow> nat set" where
  "reportedNear [] = {}"
| "reportedNear (Observed entries # evs) = fst ` set (filter snd entries) \<union> reportedNear evs"
| "reportedNear (ev # evs) = reportedNear evs"

section \<open>Traces, sample inputs and invariants\<close>

text \<open>The animation as the constructor leaves it for the phrases \<open>Go\<close> and \<open>JS\<close>.\<close>

definition goJsTyping :: "bool \<Rightarrow> typingAnimation" where
  "goJsTyping paused =
     \<lparr>texts = [''Go'', ''JS''], currentTextIndex = 0, currentCharIndex = 1, isDeleting = False,
      isPaused = paused, textContent = ''G'', pendingTimeout = Some 100\<rparr>"

text \<open>A batch of entries in which no target occurs twice.\<close>

fun distinctTargets :: "event \<Rightarrow> bool" where
  "distinctTargets (Intersection entries) = distinct (map fst entries)"
| "distinctTargets (Scroll vp) = True"

text \<open>
  A viewport of 1200 by 800 in which every element lies in view, and a page on which
  element 0 has the single stagger child 7.
\<close>

definition demoViewport :: viewport where
  "demoViewport =
     \<lparr>boundingRect = (\<lambda>element. \<lparr>rtop = 100, rbottom = 300, rleft = 0, rright = 400\<rparr>),
      innerHeight = 800, innerWidth = 1200\<rparr>"

definition demoChildren :: "nat \<Rightarrow> nat list" where
  "demoChildren element = (if element = 0 then [7] else [])"

text \<open>
  The invariants of the three controllers: the animation routine has been called at most
  once per element, and every element it has been called for is in the visited set (or,
  for \<^verbatim>\<open>ScrollAnimations\<close>, no longer observed).
\<close>

definition statsOnce :: "statsCounter \<Rightarrow> bool" where
  "statsOnce sc = (distinct (counterCalls sc) \<and> set (counterCalls sc) \<subseteq> animatedStats sc)"

definition barsOnce :: "skillBars \<Rightarrow> bool" where
  "barsOnce sb = (distinct (widthTimers sb) \<and> set (widthTimers sb) \<subseteq> animatedBars sb)"

definition revealOnce :: "scrollAnimations \<Rightarrow> bool" where
  "revealOnce sa = (distinct (animateCalls sa) \<and> set (animateCalls sa) \<inter> observedTargets sa = {} \<and>
                    \<not> revealPolling sa)"

text \<open>A form field with an error element beside it, and a page of lazy images.\<close>

definition demoField :: "string \<Rightarrow> string \<Rightarrow> string \<Rightarrow> bool \<Rightarrow> formField" where
  "demoField name ftype v req =
     \<lparr>fieldValue = v, defaultValue = [], required = req, fieldType = ftype, fieldName = name,
      hasError = False, errorElement = Some []\<rparr>"

definition demoPage :: "nat \<Rightarrow> img" where
  "demoPage i = \<lparr>dataSrc = Some ''photo.jpg'', src = ''placeholder.gif'', classes = {}\<rparr>"

text \<open>No preload is outstanding for image i, and the observer does not watch it.\<close>

definition settled :: "nat \<Rightarrow> lazyLoader \<Rightarrow> bool" where
  "settled i ll = (i \<notin> imageTargets ll \<and> i \<notin> fst ` set (preloads ll))"

text \<open>Images outside \<open>seen\<close> are as on the page \<open>page\<close> and have no preload.\<close>

definition untouched :: "(nat \<Rightarrow> img) \<Rightarrow> nat set \<Rightarrow> lazyLoader \<Rightarrow> bool" where
  "untouched page seen ll =
     (\<forall>i. i \<notin> seen \<longrightarrow> document ll i = page i \<and> i \<notin> fst ` set (preloads ll))"

declare updateCounter.simps [code]

section \<open>ThemeManager: persistence and the system signal\<close>

text \<open>
  C1. The listener for system colour-scheme changes applies the system value (and stores
  it) when the storage entry is absent or empty, and leaves the manager untouched when a
  non-empty value is stored. \<^const>\<open>setTheme\<close> writes the storage entry, also when the
  constructor calls it with the system default; hence no system change alters a manager
  right after its construction.
\<close>

theorem theme_os_signal:
  "(storage tm = None \<or> storage tm = Some [] \<longrightarrow>
      dataTheme (systemThemeChange matches tm) = Some (if matches then ''dark'' else ''light'') \<and>
      storage (systemThemeChange matches tm) = Some (if matches then ''dark'' else ''light'')) \<and>
   (storage tm = Some s \<and> s \<noteq> [] \<longrightarrow> systemThemeChange matches tm = tm) \<and>
   storage (setTheme theme tm) = Some theme \<and>
   storage (ThemeManager prefersDark None attr) = Some (getSystemTheme prefersDark) \<and>
   systemThemeChange matches (ThemeManager prefersDark stored attr) =
     ThemeManager prefersDark stored attr"
  by (auto simp: systemThemeChange_def getStoredTheme_def setTheme_def ThemeManager_def
      getSystemTheme_def Let_def split: option.splits)

theorem theme_os_signal_witness:
  "(storage \<lparr>storage = None, dataTheme = Some ''light'', currentTheme = ''light''\<rparr> = None \<and>
    dataTheme (systemThemeChange True
      \<lparr>storage = None, dataTheme = Some ''light'', currentTheme = ''light''\<rparr>) = Some ''dark'') \<and>
   (storage \<lparr>storage = Some ''light'', dataTheme = Some ''light'', currentTheme = ''light''\<rparr>
      = Some ''light'' \<and> ''light'' \<noteq> [] \<and>
    systemThemeChange True
      \<lparr>storage = Some ''light'', dataTheme = Some ''light'', currentTheme = ''light''\<rparr> =
      \<lparr>storage = Some ''light'', dataTheme = Some ''light'', currentTheme = ''light''\<rparr>)"
  using theme_os_signal [where matches = True
      and tm = "\<lparr>storage = None, dataTheme = Some ''light'', currentTheme = ''light''\<rparr>"]
    theme_os_signal [where matches = True and s = "''light''"
      and tm = "\<lparr>storage = Some ''light'', dataTheme = Some ''light'', currentTheme = ''light''\<rparr>"]
  by simp

text \<open>
  C8. After \<^const>\<open>setTheme\<close> and after \<^const>\<open>toggleTheme\<close> the stored value and the
  \<^verbatim>\<open>data-theme\<close> attribute are equal; a manager constructed afterwards on that storage
  (a reload) applies and stores the same value again, for every non-empty theme and
  after every toggle.
\<close>

theorem theme_persisted_applied_agree:
  "storage (setTheme theme tm) = dataTheme (setTheme theme tm) \<and>
   dataTheme (setTheme theme tm) = Some theme \<and>
   storage (toggleTheme tm) = dataTheme (toggleTheme tm) \<and>
   (theme \<noteq> [] \<longrightarrow>
      dataTheme (ThemeManager prefersDark (storage (setTheme theme tm)) attr) = Some theme \<and>
      storage (ThemeManager prefersDark (storage (setTheme theme tm)) attr) = Some theme) \<and>
   dataTheme (ThemeManager prefersDark (storage (toggleTheme tm)) attr) = storage (toggleTheme tm) \<and>
   storage (ThemeManager prefersDark (storage (toggleTheme tm)) attr) = storage (toggleTheme tm)"
  by (auto simp: setTheme_def toggleTheme_def ThemeManager_def getStoredTheme_def Let_def)

theorem theme_persisted_applied_agree_witness:
  "''dark'' \<noteq> [] \<and>
   dataTheme (ThemeManager False
     (storage (setTheme ''dark'' \<lparr>storage = None, dataTheme = None, currentTheme = ''light''\<rparr>))
     None) = Some ''dark''"
  using theme_persisted_applied_agree [where theme = "''dark''" and prefersDark = False
      and attr = None
      and tm = "\<lparr>storage = None, dataTheme = None, currentTheme = ''light''\<rparr>"]
  by blast

text \<open>
  C10, as stated, at an empty stored value: the constructor does not apply the empty
  string that it finds in storage; it applies and stores the system theme instead.
\<close>

theorem theme_empty_string_counterexample:
  "dataTheme (ThemeManager False (Some []) None) = Some ''light'' \<and>
   storage (ThemeManager False (Some []) None) = Some ''light'' \<and>
   dataTheme (ThemeManager False (Some []) None) \<noteq> Some []"
  by (simp add: ThemeManager_def getStoredTheme_def getSystemTheme_def setTheme_def Let_def)

text \<open>
  C10, amended. Every non-empty string found in storage at construction is applied as the
  \<^verbatim>\<open>data-theme\<close> attribute and stored again, whatever it is; the empty string counts as
  absent. \<^const>\<open>toggleTheme\<close> maps every current value other than \<open>dark\<close> to \<open>dark\<close>
  and \<open>dark\<close> to \<open>light\<close>, so two toggles restore the current value exactly on
  \<open>light\<close> and \<open>dark\<close>.
\<close>

theorem theme_no_validation:
  "(s \<noteq> [] \<longrightarrow>
      dataTheme (ThemeManager prefersDark (Some s) attr) = Some s \<and>
      storage (ThemeManager prefersDark (Some s) attr) = Some s \<and>
      currentTheme (ThemeManager prefersDark (Some s) attr) = s) \<and>
   dataTheme (ThemeManager prefersDark (Some []) attr) = Some (getSystemTheme prefersDark) \<and>
   storage (ThemeManager prefersDark (Some []) attr) = Some (getSystemTheme prefersDark) \<and>
   (currentTheme tm \<noteq> ''dark'' \<longrightarrow> currentTheme (toggleTheme tm) = ''dark'' \<and>
      dataTheme (toggleTheme tm) = Some ''dark'' \<and> storage (toggleTheme tm) = Some ''dark'') \<and>
   (currentTheme tm = ''dark'' \<longrightarrow> currentTheme (toggleTheme tm) = ''light'') \<and>
   (currentTheme (toggleTheme (toggleTheme tm)) = currentTheme tm
      \<longleftrightarrow> currentTheme tm \<in> {''light'', ''dark''})"
  by (auto simp: setTheme_def toggleTheme_def ThemeManager_def getStoredTheme_def Let_def)

theorem theme_no_validation_witness:
  "''purple'' \<noteq> [] \<and>
   dataTheme (ThemeManager False (Some ''purple'') None) = Some ''purple'' \<and>
   currentTheme (ThemeManager False (Some ''purple'') None) \<noteq> ''dark'' \<and>
   currentTheme (toggleTheme (ThemeManager False (Some ''purple'') None)) = ''dark'' \<and>
   currentTheme (toggleTheme (toggleTheme (ThemeManager False (Some ''purple'') None))) = ''light''"
  using theme_no_validation [where s = "''purple''" and prefersDark = False and attr = None
      and tm = "ThemeManager False (Some ''purple'') None"]
    theme_no_validation [where s = "''purple''" and prefersDark = False and attr = None
      and tm = "toggleTheme (ThemeManager False (Some ''purple'') None)"]
  by simp

section \<open>NavigationManager: the mobile menu\<close>

text \<open>
  C9. On a page that has the toggle and the menu, an open menu is closed by the Escape key
  and by a click that lies neither in the menu nor in the toggle; an open menu is closed
  by a resize that settles above the mobile breakpoint of 480; and none of the three
  events changes a closed menu.
\<close>

theorem menu_closing_events:
  "(navToggle nm \<and> navMenu nm \<and> isMenuOpen nm \<longrightarrow>
      \<not> isMenuOpen (documentKeydown ''Escape'' nm) \<and>
      \<not> isMenuOpen (documentClick Elsewhere nm)) \<and>
   (isMenuOpen nm \<and> width > 480 \<longrightarrow> \<not> isMenuOpen (handleResize width nm)) \<and>
   (\<not> isMenuOpen nm \<longrightarrow>
      documentKeydown key nm = nm \<and> documentClick Elsewhere nm = nm \<and>
      handleResize width' nm = nm)"
  by (auto simp: documentKeydown_def documentClick_def handleResize_def closeMobileMenu_def
      toggleMobileMenu_def getViewportSize_def Let_def)

theorem menu_closing_events_witness:
  "(navToggle (toggleMobileMenu (NavigationManager True True)) \<and>
    navMenu (toggleMobileMenu (NavigationManager True True)) \<and>
    isMenuOpen (toggleMobileMenu (NavigationManager True True))) \<and>
   \<not> isMenuOpen (documentKeydown ''Escape'' (toggleMobileMenu (NavigationManager True True))) \<and>
   \<not> isMenuOpen (documentClick Elsewhere (toggleMobileMenu (NavigationManager True True))) \<and>
   (1024::int) > 480 \<and>
   \<not> isMenuOpen (handleResize 1024 (toggleMobileMenu (NavigationManager True True))) \<and>
   \<not> isMenuOpen (NavigationManager True True) \<and>
   documentKeydown ''Escape'' (NavigationManager True True) = NavigationManager True True \<and>
   documentClick Elsewhere (NavigationManager True True) = NavigationManager True True \<and>
   handleResize 1024 (NavigationManager True True) = NavigationManager True True"
  using menu_closing_events [where nm = "toggleMobileMenu (NavigationManager True True)"
      and width = 1024]
    menu_closing_events [where nm = "NavigationManager True True" and key = "''Escape''"
      and width' = 1024]
  by (simp add: toggleMobileMenu_def NavigationManager_def)

section \<open>TypingAnimation\<close>

lemma ticks_add:
  "ticks (a + b) ta = (case ticks a ta of None \<Rightarrow> None | Some ta' \<Rightarrow> ticks b ta')"
  by (induction a arbitrary: ta) (auto split: option.splits)

lemmas typing_defs = timerFires_def type_def substring0_def typingSpeed_def
  typingDeleteSpeed_def typingPause_def Let_def

lemma goJs_construct: "TypingAnimation False initialText [''Go'', ''JS''] = Some (goJsTyping False)"
  by (simp add: TypingAnimation_def start_def goJsTyping_def typing_defs)

lemma goJs_period: "ticks 8 (goJsTyping paused) = Some (goJsTyping True)"
  by (simp add: eval_nat_numeral goJsTyping_def typing_defs)

lemma goJs_periods: "ticks (8 * k) (goJsTyping True) = Some (goJsTyping True)"
proof (induction k)
  case 0
  show ?case by simp
next
  case (Suc k)
  have "ticks (8 * Suc k) (goJsTyping True) = ticks (8 + 8 * k) (goJsTyping True)"
    by simp
  also have "\<dots> = ticks (8 * k) (goJsTyping True)"
    by (simp only: ticks_add goJs_period option.case)
  finally show ?case using Suc by simp
qed

lemma goJs_prefix:
  "r < 8 \<Longrightarrow>
   \<exists>ta. ticks r (goJsTyping paused) = Some ta \<and>
     textContent ta = [''G'', ''Go'', ''G'', [], ''J'', ''JS'', ''J'', []] ! r \<and>
     pendingTimeout ta = Some ([100, 2000, 50, 50, 100, 2000, 50, 50] ! r)"
proof -
  assume "r < 8"
  then consider "r = 0" | "r = 1" | "r = 2" | "r = 3" | "r = 4" | "r = 5" | "r = 6" | "r = 7"
    by linarith
  then show ?thesis
    by cases (simp_all add: eval_nat_numeral goJsTyping_def typing_defs)
qed

lemma goJs_any:
  "\<exists>ta. ticks n (goJsTyping paused) = Some ta \<and>
     textContent ta = [''G'', ''Go'', ''G'', [], ''J'', ''JS'', ''J'', []] ! (n mod 8) \<and>
     pendingTimeout ta = Some ([100, 2000, 50, 50, 100, 2000, 50, 50] ! (n mod 8))"
proof (cases "n < 8")
  case True
  then show ?thesis using goJs_prefix [of n paused] by simp
next
  case False
  define k where "k = n div 8 - 1"
  have n: "n = 8 + (8 * k + n mod 8)"
    using False by (simp add: k_def) presburger
  have "ticks n (goJsTyping paused) = ticks (8 * k + n mod 8) (goJsTyping True)"
    by (subst n) (simp only: ticks_add goJs_period option.case)
  also have "\<dots> = ticks (n mod 8) (goJsTyping True)"
    by (simp only: ticks_add goJs_periods option.case)
  finally show ?thesis using goJs_prefix [of "n mod 8" True] by simp
qed

text \<open>
  C6. For the phrases \<open>Go\<close> and \<open>JS\<close> without reduced motion, the text shown after the
  constructor and after each further timer tick runs through G, Go, G, empty, J, JS, J,
  empty and repeats with period 8; the timeout scheduled after Go and after JS is the
  pause of 2000 ms. With reduced motion the constructor shows Go, schedules nothing, and
  no tick changes anything.
\<close>

theorem typing_go_js_cycle:
  "(\<exists>ta. TypingAnimation False initialText [''Go'', ''JS''] = Some ta \<and>
      (\<forall>n. map_option textContent (ticks n ta) =
             Some ([''G'', ''Go'', ''G'', [], ''J'', ''JS'', ''J'', []] ! (n mod 8))) \<and>
      (\<forall>n. map_option pendingTimeout (ticks n ta) =
             Some (Some ([100, 2000, 50, 50, 100, 2000, 50, 50] ! (n mod 8))))) \<and>
   (\<exists>ta. TypingAnimation True initialText [''Go'', ''JS''] = Some ta \<and>
      textContent ta = ''Go'' \<and> pendingTimeout ta = None \<and> (\<forall>n. ticks n ta = Some ta))"
proof (intro conjI)
  have a: "map_option textContent (ticks n (goJsTyping False)) =
           Some ([''G'', ''Go'', ''G'', [], ''J'', ''JS'', ''J'', []] ! (n mod 8))" for n
    using goJs_any [of n False] by auto
  have b: "map_option pendingTimeout (ticks n (goJsTyping False)) =
           Some (Some ([100, 2000, 50, 50, 100, 2000, 50, 50] ! (n mod 8)))" for n
    using goJs_any [of n False] by auto
  show "\<exists>ta. TypingAnimation False initialText [''Go'', ''JS''] = Some ta \<and>
      (\<forall>n. map_option textContent (ticks n ta) =
             Some ([''G'', ''Go'', ''G'', [], ''J'', ''JS'', ''J'', []] ! (n mod 8))) \<and>
      (\<forall>n. map_option pendingTimeout (ticks n ta) =
             Some (Some ([100, 2000, 50, 50, 100, 2000, 50, 50] ! (n mod 8))))"
    using goJs_construct a b by blast
next
  define ta where "ta = \<lparr>texts = [''Go'', ''JS''], currentTextIndex = 0, currentCharIndex = 0,
      isDeleting = False, isPaused = False, textContent = ''Go'', pendingTimeout = None\<rparr>"
  have c: "TypingAnimation True initialText [''Go'', ''JS''] = Some ta"
    by (simp add: TypingAnimation_def start_def ta_def)
  have "ticks n ta = Some ta" for n
    by (induction n) (simp_all add: timerFires_def ta_def)
  then show "\<exists>ta. TypingAnimation True initialText [''Go'', ''JS''] = Some ta \<and>
      textContent ta = ''Go'' \<and> pendingTimeout ta = None \<and> (\<forall>n. ticks n ta = Some ta)"
    using c by (simp add: ta_def)
qed

lemma type_ignores_isPaused:
  "map_option (\<lambda>ta. ta\<lparr>isPaused := x\<rparr>) (type (ta\<lparr>isPaused := b\<rparr>)) =
   map_option (\<lambda>ta. ta\<lparr>isPaused := x\<rparr>) (type ta)"
  by (simp add: type_def Let_def)

text \<open>
  C3, on the code: \<^const>\<open>type\<close> never reads \<open>isPaused\<close>. With the flag set by
  \<^const>\<open>pauseAnimations\<close> while G is shown, the next tick shows Go and moves the character
  index from 1 to 2, and three ticks later the second phrase is being typed.
\<close>

theorem typing_ignores_pause_flag:
  "TypingAnimation False [] [''Go'', ''JS''] = Some (goJsTyping False) \<and>
   isPaused (pauseAnimations (goJsTyping False)) \<and>
   textContent (pauseAnimations (goJsTyping False)) = ''G'' \<and>
   currentCharIndex (pauseAnimations (goJsTyping False)) = 1 \<and>
   map_option textContent (timerFires (pauseAnimations (goJsTyping False))) = Some ''Go'' \<and>
   map_option currentCharIndex (timerFires (pauseAnimations (goJsTyping False))) = Some 2 \<and>
   map_option isPaused (timerFires (pauseAnimations (goJsTyping False))) = Some True \<and>
   map_option textContent (ticks 4 (pauseAnimations (goJsTyping False))) = Some ''J''"
  by (simp add: goJs_construct) (simp add: eval_nat_numeral pauseAnimations_def goJsTyping_def typing_defs)

section \<open>StatsCounter: the counter animation\<close>

subsection \<open>Rounding\<close>

lemma twoPow_pos: "0 < twoPow k"
  by (simp add: twoPow_def)

lemma twoPow_nat: "twoPow (int n) = 2 ^ n"
  by (simp add: twoPow_def)

lemma twoPow_mono:
  assumes "a \<le> b"
  shows "twoPow a \<le> twoPow b"
proof -
  consider "0 \<le> a" | "a < 0" "0 \<le> b" | "b < 0" using assms by linarith
  then show ?thesis
  proof cases
    case 1
    then show ?thesis using assms by (simp add: twoPow_def power_increasing)
  next
    case 2
    have "1 / (2::rat) ^ nat (- a) \<le> 1" by simp
    also have "\<dots> \<le> 2 ^ nat b" by simp
    finally show ?thesis using 2 by (simp add: twoPow_def)
  next
    case 3
    then have "(2::rat) ^ nat (- b) \<le> 2 ^ nat (- a)"
      using assms by (intro power_increasing) simp_all
    then show ?thesis using 3 assms by (simp add: twoPow_def frac_le)
  qed
qed

lemma twoPow_less_cancel: "twoPow a < twoPow b \<Longrightarrow> a < b"
  using twoPow_mono [of b a] by (cases "a < b") auto

lemma twoPow_neg: "0 \<le> k \<Longrightarrow> twoPow (- k) = 1 / 2 ^ nat k"
  by (cases "k = 0") (simp_all add: twoPow_def)

lemma exponent_le:
  assumes "0 < x"
  shows "twoPow (exponent x) \<le> x"
proof (cases "1 \<le> x")
  case True
  then have pos: "0 < \<lfloor>x\<rfloor>" by linarith
  then have b: "1 \<le> bitlen \<lfloor>x\<rfloor>"
    using bitlen_eq_zero_iff [of "\<lfloor>x\<rfloor>"] bitlen_nonneg [of "\<lfloor>x\<rfloor>"] by linarith
  have "(2::int) ^ nat (bitlen \<lfloor>x\<rfloor> - 1) \<le> \<lfloor>x\<rfloor>"
    using bitlen_bounds [OF pos] by blast
  then have "(of_int ((2::int) ^ nat (bitlen \<lfloor>x\<rfloor> - 1)) :: rat) \<le> of_int \<lfloor>x\<rfloor>"
    by (simp only: of_int_le_iff)
  also have "\<dots> \<le> x" by (rule of_int_floor_le)
  finally have "(2::rat) ^ nat (bitlen \<lfloor>x\<rfloor> - 1) \<le> x"
    by simp
  then show ?thesis
    using True b by (simp add: exponent_def twoPow_def)
next
  case False
  then have x1: "x < 1" by simp
  then have "1 < 1 / x" using assms by simp
  then have N: "0 < \<lceil>1 / x\<rceil> - 1" by linarith
  let ?j = "bitlen (\<lceil>1 / x\<rceil> - 1)"
  have "\<lceil>1 / x\<rceil> - 1 < (2::int) ^ nat ?j"
    using bitlen_bounds [OF N] by blast
  then have "\<lceil>1 / x\<rceil> \<le> (2::int) ^ nat ?j" by linarith
  then have "(of_int \<lceil>1 / x\<rceil> :: rat) \<le> of_int ((2::int) ^ nat ?j)"
    by (simp only: of_int_le_iff)
  then have "of_int \<lceil>1 / x\<rceil> \<le> (2::rat) ^ nat ?j"
    by simp
  moreover have "1 / x \<le> of_int \<lceil>1 / x\<rceil>" by (rule le_of_int_ceiling)
  ultimately have "1 / x \<le> (2::rat) ^ nat ?j"
    by (rule order_trans [rotated])
  then have "1 / 2 ^ nat ?j \<le> x"
    using assms by (simp add: field_simps)
  then show ?thesis
    using False by (simp add: exponent_def twoPow_neg bitlen_nonneg)
qed

lemma exponent_less:
  assumes "0 < x" "x < 2 ^ n"
  shows "exponent x < int n"
proof -
  have "twoPow (exponent x) < twoPow (int n)"
    using exponent_le [OF assms(1)] assms(2) by (simp add: twoPow_nat)
  then show ?thesis by (rule twoPow_less_cancel)
qed

lemma roundHalfEven_near: "\<bar>of_int (roundHalfEven m) - m\<bar> \<le> 1 / 2"
proof -
  define d where "d = m - of_int \<lfloor>m\<rfloor>"
  have d: "0 \<le> d" "d < 1" unfolding d_def by linarith+
  have down: "of_int (roundHalfEven m) - m = - d" if "roundHalfEven m = \<lfloor>m\<rfloor>"
    by (simp add: that d_def)
  have up: "of_int (roundHalfEven m) - m = 1 - d" if "roundHalfEven m = \<lfloor>m\<rfloor> + 1"
    by (simp add: that d_def)
  consider "d < 1 / 2" | "1 / 2 < d" | "d = 1 / 2" by linarith
  then show ?thesis
  proof cases
    case 1
    then have "roundHalfEven m = \<lfloor>m\<rfloor>"
      by (simp add: roundHalfEven_def Let_def d_def)
    then have e: "of_int (roundHalfEven m) - m = - d" by (rule down)
    show ?thesis unfolding e using 1 d by simp
  next
    case 2
    then have "roundHalfEven m = \<lfloor>m\<rfloor> + 1"
      by (simp add: roundHalfEven_def Let_def d_def)
    then have e: "of_int (roundHalfEven m) - m = 1 - d" by (rule up)
    show ?thesis unfolding e using 2 d by simp
  next
    case 3
    then have "roundHalfEven m = (if even \<lfloor>m\<rfloor> then \<lfloor>m\<rfloor> else \<lfloor>m\<rfloor> + 1)"
      by (simp add: roundHalfEven_def Let_def d_def)
    then consider "roundHalfEven m = \<lfloor>m\<rfloor>" | "roundHalfEven m = \<lfloor>m\<rfloor> + 1"
      by (cases "even \<lfloor>m\<rfloor>") simp_all
    then show ?thesis
    proof cases
      case 1
      then have e: "of_int (roundHalfEven m) - m = - d" by (rule down)
      show ?thesis unfolding e using 3 by simp
    next
      case 2
      then have e: "of_int (roundHalfEven m) - m = 1 - d" by (rule up)
      show ?thesis unfolding e using 3 by simp
    qed
  qed
qed

lemma roundHalfEven_int: "roundHalfEven (of_int n) = n"
  by (simp add: roundHalfEven_def)

text \<open>Rounding of positive numbers: the error is at most half a unit in the last place.\<close>

lemma roundDouble_pos:
  assumes "0 < x"
  shows "roundDouble x = of_int (roundHalfEven (x / twoPow (exponent x - 52))) * twoPow (exponent x - 52)"
  using assms by (simp add: roundDouble_def Let_def)

lemma roundDouble_error:
  assumes "0 < x"
  shows "\<bar>roundDouble x - x\<bar> \<le> twoPow (exponent x - 52) / 2"
proof -
  let ?u = "twoPow (exponent x - 52)"
  have u: "0 < ?u" by (rule twoPow_pos)
  have "\<bar>of_int (roundHalfEven (x / ?u)) - x / ?u\<bar> * ?u \<le> 1 / 2 * ?u"
    using roundHalfEven_near [of "x / ?u"] u by (intro mult_right_mono) simp_all
  moreover have "\<bar>of_int (roundHalfEven (x / ?u)) - x / ?u\<bar> * ?u =
                 \<bar>of_int (roundHalfEven (x / ?u)) * ?u - x\<bar>"
    using u by (simp add: abs_mult_pos [symmetric] field_simps)
  ultimately show ?thesis
    by (simp add: roundDouble_pos [OF assms])
qed

lemma roundDouble_multiple:
  assumes "0 < x" "x = of_int m * twoPow (exponent x - 52)"
  shows "roundDouble x = x"
proof -
  let ?u = "twoPow (exponent x - 52)"
  have u: "0 < ?u" by (rule twoPow_pos)
  have "x / ?u = of_int m" using assms(2) u by (simp add: field_simps)
  then show ?thesis
    using assms(2) by (simp add: roundDouble_pos [OF assms(1)] roundHalfEven_int)
qed

lemma twoPow_scale:
  assumes "e \<le> 52"
  shows "of_int (n * 2 ^ nat (52 - e)) * twoPow (e - 52) = (of_int n :: rat)"
proof -
  have "twoPow (e - 52) = twoPow (- (52 - e))" by simp
  also have "\<dots> = 1 / 2 ^ nat (52 - e)"
    using assms by (intro twoPow_neg) simp
  finally show ?thesis by simp
qed

lemma roundDouble_exact:
  assumes "0 \<le> n" "n \<le> 2 ^ 53"
  shows "roundDouble (of_int n) = of_int n"
proof -
  consider "n = 0" | "0 < n" "n < 2 ^ 53" | "n = 2 ^ 53" using assms by linarith
  then show ?thesis
  proof cases
    case 1
    then show ?thesis by (simp add: roundDouble_def)
  next
    case 2
    have pos: "(0::rat) < of_int n" using 2 by simp
    have "(of_int n :: rat) < of_int (2 ^ 53)" using 2(2) by (simp only: of_int_less_iff)
    then have "(of_int n :: rat) < 2 ^ 53" by simp
    then have "exponent (of_int n) < int 53" by (rule exponent_less [OF pos])
    then have e: "exponent (of_int n) \<le> 52" by simp
    show ?thesis
      by (rule roundDouble_multiple [OF pos]) (rule twoPow_scale [OF e, symmetric])
  next
    case 3
    have "roundDouble 9007199254740992 = 9007199254740992" by code_simp
    then show ?thesis using 3 by simp
  qed
qed

lemma roundDouble_above:
  assumes "2 ^ 53 < s" "s < 2 ^ 54"
  shows "(2::rat) ^ 53 \<le> roundDouble (of_int s)"
proof -
  have pos: "(0::rat) < of_int s" using assms(1) by simp
  have "(of_int s :: rat) < of_int (2 ^ 54)" using assms(2) by (simp only: of_int_less_iff)
  then have "(of_int s :: rat) < 2 ^ 54" by simp
  then have "exponent (of_int s) < int 54" by (rule exponent_less [OF pos])
  then have "twoPow (exponent (of_int s) - 52) \<le> twoPow 1"
    by (intro twoPow_mono) simp
  then have u: "twoPow (exponent (of_int s) - 52) / 2 \<le> 1"
    by (simp add: twoPow_def)
  have "\<bar>roundDouble (of_int s) - of_int s\<bar> \<le> 1"
    using roundDouble_error [OF pos] u by linarith
  moreover have "(of_int (2 ^ 53 + 1) :: rat) \<le> of_int s"
    using assms(1) by (simp only: of_int_le_iff)
  then have "(2::rat) ^ 53 + 1 \<le> of_int s" by simp
  ultimately show ?thesis by linarith
qed

subsection \<open>The run of the counter\<close>

lemma ceil100_exact:
  assumes "0 \<le> t" "t \<le> 2 ^ 53"
  shows "ceil100 (of_int t) = of_int \<lceil>(of_int t :: rat) / 100\<rceil>"
proof (cases "t = 0")
  case True
  then show ?thesis by (simp add: ceil100_def roundDouble_def)
next
  case False
  define q :: rat where "q = of_int t / 100"
  define n where "n = t div 100"
  define k where "k = t mod 100"
  have t: "t = 100 * n + k" and k: "0 \<le> k" "k < 100" by (simp_all add: n_def k_def)
  have qn: "q = of_int n + of_int k / 100" by (simp add: q_def t)
  have pos: "0 < q" using False assms(1) by (simp add: q_def)
  have "(of_int t :: rat) \<le> of_int (2 ^ 53)" using assms(2) by (simp only: of_int_le_iff)
  then have "q < 2 ^ 47" by (simp add: q_def)
  then have "exponent q < int 47" by (rule exponent_less [OF pos])
  then have e: "exponent q \<le> 46" by simp
  show ?thesis
  proof (cases "k = 0")
    case True
    then have qi: "q = of_int n" by (simp add: qn)
    have "roundDouble q = q"
    proof (rule roundDouble_multiple [OF pos])
      show "q = of_int (n * 2 ^ nat (52 - exponent q)) * twoPow (exponent q - 52)"
        using e by (subst twoPow_scale) (simp_all add: qi)
    qed
    then show ?thesis by (simp add: ceil100_def flip: q_def)
  next
    case False
    then have k1: "1 \<le> k" "k \<le> 99" using k by simp_all
    then have kq: "(1::rat) / 100 \<le> of_int k / 100" "(of_int k :: rat) / 100 \<le> 99 / 100"
      by simp_all
    have "twoPow (exponent q - 52) \<le> twoPow (- 6)"
      using e by (intro twoPow_mono) simp
    then have u: "twoPow (exponent q - 52) / 2 \<le> 1 / 128"
      by (simp add: twoPow_def)
    have err: "\<bar>roundDouble q - q\<bar> \<le> 1 / 128"
      using roundDouble_error [OF pos] u by linarith
    have "of_int n < roundDouble q" "roundDouble q \<le> of_int n + 1"
      using err kq qn by linarith+
    then have "of_int n < roundDouble q" "roundDouble q \<le> of_int (n + 1)"
      by simp_all
    then have r: "\<lceil>roundDouble q\<rceil> = n + 1" by (simp add: ceiling_eq_iff)
    have "of_int n < q" "q \<le> of_int n + 1"
      using kq qn by linarith+
    then have "of_int n < q" "q \<le> of_int (n + 1)"
      by simp_all
    then have "\<lceil>q\<rceil> = n + 1" by (simp add: ceiling_eq_iff)
    then show ?thesis using r by (simp add: ceil100_def flip: q_def)
  qed
qed

lemma ceiling_100_bounds:
  "t \<le> 100 * \<lceil>(of_int t :: rat) / 100\<rceil>"
  "0 < t \<Longrightarrow> 0 < \<lceil>(of_int t :: rat) / 100\<rceil>"
  "0 < t \<Longrightarrow> \<lceil>(of_int t :: rat) / 100\<rceil> \<le> t"
proof -
  have "(of_int t :: rat) / 100 \<le> of_int \<lceil>(of_int t :: rat) / 100\<rceil>"
    by (rule le_of_int_ceiling)
  then have "(of_int t :: rat) \<le> 100 * of_int \<lceil>(of_int t :: rat) / 100\<rceil>"
    by linarith
  also have "\<dots> = of_int (100 * \<lceil>(of_int t :: rat) / 100\<rceil>)" by simp
  finally have "(of_int t :: rat) \<le> of_int (100 * \<lceil>(of_int t :: rat) / 100\<rceil>)" .
  then show "t \<le> 100 * \<lceil>(of_int t :: rat) / 100\<rceil>" by (simp only: of_int_le_iff)
  show "0 < \<lceil>(of_int t :: rat) / 100\<rceil>" if "0 < t" using that by simp
  show "\<lceil>(of_int t :: rat) / 100\<rceil> \<le> t" if "0 < t"
  proof -
    have "(of_int t :: rat) / 100 \<le> of_int t" using that by simp
    then show ?thesis by (simp add: ceiling_le_iff)
  qed
qed

lemma updateCounter_run:
  assumes "0 < increment" "increment \<le> 2 ^ 53" "target \<le> 2 ^ 53" "0 \<le> current"
    "current < target"
  shows "\<exists>rest. updateCounter (of_int target) (of_int increment) (of_int current) shown =
           Some (shown @ map of_int rest @ [of_int target]) \<and>
         (\<forall>k < length rest. rest ! k = current + (int k + 1) * increment \<and> rest ! k < target)"
  using assms(4,5)
proof (induction "nat (target - current)" arbitrary: current shown rule: less_induct)
  case less
  let ?s = "current + increment"
  have sum: "(of_int current :: rat) + of_int increment = of_int ?s" by simp
  show ?case
  proof (cases "target \<le> ?s")
    case True
    have "(of_int target :: rat) \<le> roundDouble (of_int ?s)"
    proof (cases "?s \<le> 2 ^ 53")
      case True
      then have "roundDouble (of_int ?s) = of_int ?s"
        using less.prems assms(1) by (intro roundDouble_exact) simp_all
      then show ?thesis using \<open>target \<le> ?s\<close> by simp
    next
      case False
      then have "(2::rat) ^ 53 \<le> roundDouble (of_int ?s)"
        using less.prems assms(2,3) by (intro roundDouble_above) simp_all
      moreover have "(of_int target :: rat) \<le> of_int (2 ^ 53)"
        using assms(3) by (simp only: of_int_le_iff)
      ultimately show ?thesis by simp
    qed
    then have "updateCounter (of_int target) (of_int increment) (of_int current) shown =
               Some (shown @ map of_int [] @ [of_int target])"
      by (subst updateCounter.simps) (simp add: sum del: of_int_add)
    then show ?thesis by (metis length_0_conv less_nat_zero_code list.size(3))
  next
    case False
    then have small: "?s < target" by simp
    then have "?s \<le> 2 ^ 53" using assms(3) by simp
    then have exact: "roundDouble (of_int ?s) = of_int ?s"
      using less.prems assms(1) by (intro roundDouble_exact) simp_all
    have lt: "nat (target - ?s) < nat (target - current)"
      using assms(1) small by linarith
    have nonneg: "0 \<le> ?s" using less.prems assms(1) by simp
    from less.hyps [OF lt nonneg small, of "shown @ [of_int ?s]"]
    obtain rest where rest:
      "updateCounter (of_int target) (of_int increment) (of_int ?s) (shown @ [of_int ?s]) =
         Some ((shown @ [of_int ?s]) @ map of_int rest @ [of_int target])"
      "\<forall>k < length rest. rest ! k = ?s + (int k + 1) * increment \<and> rest ! k < target"
      by blast
    have run: "updateCounter (of_int target) (of_int increment) (of_int current) shown =
               Some (shown @ map of_int (?s # rest) @ [of_int target])"
      using small rest(1)
      by (subst updateCounter.simps) (simp add: sum exact del: of_int_add)
    have "(?s # rest) ! k = current + (int k + 1) * increment \<and> (?s # rest) ! k < target"
      if "k < length (?s # rest)" for k
    proof (cases k)
      case 0
      then show ?thesis using small by simp
    next
      case (Suc j)
      then have "j < length rest" using that by simp
      then have "rest ! j = ?s + (int j + 1) * increment \<and> rest ! j < target"
        using rest(2) by blast
      then show ?thesis using Suc by (simp add: algebra_simps)
    qed
    then show ?thesis using run by blast
  qed
qed

lemma animateCounter_zero: "animateCounter 0 = Some [0]"
  unfolding animateCounter_def Let_def
  by (subst updateCounter.simps) (simp add: ceil100_def roundDouble_def)

lemma animateCounter_positive:
  assumes "0 < target" "target \<le> 2 ^ 53"
  shows "\<exists>shown. animateCounter target = Some shown \<and> 0 < length shown \<and> length shown \<le> 100 \<and>
           last shown = of_int target \<and>
           (\<forall>k. Suc k < length shown \<longrightarrow> shown ! k = (of_nat k + 1) * ceil100 (of_int target))"
proof -
  define inc where "inc = \<lceil>(of_int target :: rat) / 100\<rceil>"
  have t: "roundDouble (of_int target) = of_int target"
    using assms by (intro roundDouble_exact) simp_all
  have c: "ceil100 (of_int target) = of_int inc"
    unfolding inc_def using assms by (intro ceil100_exact) simp_all
  have inc: "0 < inc" "inc \<le> 2 ^ 53" "target \<le> 100 * inc"
    using ceiling_100_bounds [of target] assms by (simp_all add: inc_def)
  from updateCounter_run [OF inc(1,2) assms(2) order_refl assms(1), of "[]"]
  have "\<exists>rest. updateCounter (of_int target) (of_int inc) 0 [] =
           Some (map of_int rest @ [of_int target]) \<and>
         (\<forall>k < length rest. rest ! k = (int k + 1) * inc \<and> rest ! k < target)"
    by simp
  then obtain rest where rest: "animateCounter target = Some (map of_int rest @ [of_int target])"
    "\<forall>k < length rest. rest ! k = (int k + 1) * inc \<and> rest ! k < target"
    unfolding animateCounter_def Let_def t c by blast
  have len: "length rest < 100"
  proof (rule ccontr)
    assume "\<not> length rest < 100"
    then have "99 < length rest" by simp
    with rest(2) have "rest ! 99 = (int 99 + 1) * inc \<and> rest ! 99 < target"
      by blast
    then have "100 * inc < target" by simp
    then show False using inc(3) by linarith
  qed
  have "(map of_int rest @ [of_int target]) ! k = (of_nat k + 1) * ceil100 (of_int target)"
    if "Suc k < length (map of_int rest @ [of_int target])" for k
    using that rest(2) by (simp add: nth_append c)
  then show ?thesis using rest(1) len by auto
qed

lemma animateCounter_250: "animateCounter 250 = Some (map (\<lambda>k. 3 * of_int k) [1..83] @ [250])"
  by code_simp




section \<open>The reveal-on-scroll family: at most once\<close>

text \<open>A property that every step of a \<^const>\<open>fold\<close> keeps holds at its end.\<close>

lemma fold_preserves:
  assumes "\<And>x acc. x \<in> set xs \<Longrightarrow> Inv acc \<Longrightarrow> Inv (step x acc)" and "Inv init"
  shows "Inv (fold step xs init)"
  using assms by (induction xs arbitrary: init) auto

lemma distinct_count_le_1: "distinct xs \<Longrightarrow> count_list xs x \<le> 1"
  by (induction xs) auto

lemma statsOnce_callback: "statsOnce sc \<Longrightarrow> statsOnce (StatsCounter_callback entries sc)"
  unfolding StatsCounter_callback_def
  by (rule fold_preserves) (auto simp: statsOnce_def subset_iff)

lemma statsOnce_handleScroll: "statsOnce sc \<Longrightarrow> statsOnce (StatsCounter_handleScroll vp sc)"
  unfolding StatsCounter_handleScroll_def
  by (rule fold_preserves) (auto simp: statsOnce_def subset_iff)

lemma statsOnce_step: "statsOnce sc \<Longrightarrow> statsOnce (StatsCounter_step ev sc)"
  by (cases ev) (simp_all add: statsOnce_callback statsOnce_handleScroll)

lemma statsOnce_setup: "statsOnce sc \<Longrightarrow> statsOnce (StatsCounter_setupIntersectionObserver sc)"
  unfolding StatsCounter_setupIntersectionObserver_def
  by (rule fold_preserves) (auto simp: statsOnce_def subset_iff)

lemma statsOnce_init: "statsOnce (StatsCounter reducedMotion hasObserver elements)"
proof -
  have "statsOnce \<lparr>statElements = elements, animatedStats = {}, statTargets = {},
                statPolling = False, counterCalls = []\<rparr>"
    by (simp add: statsOnce_def)
  then show ?thesis
    unfolding StatsCounter_def Let_def
    by (simp add: statsOnce_setup) (simp add: statsOnce_def fallbackCounter_def)
qed

lemma statsOnce_run:
  "statsOnce (fold StatsCounter_step evs (StatsCounter reducedMotion hasObserver elements))"
  by (rule fold_preserves) (simp_all add: statsOnce_init statsOnce_step)

lemma barsOnce_callback: "barsOnce sb \<Longrightarrow> barsOnce (SkillBars_callback entries sb)"
  unfolding SkillBars_callback_def
  by (rule fold_preserves) (auto simp: barsOnce_def subset_iff)

lemma barsOnce_handleScroll: "barsOnce sb \<Longrightarrow> barsOnce (SkillBars_handleScroll vp sb)"
  unfolding SkillBars_handleScroll_def
  by (rule fold_preserves) (auto simp: barsOnce_def subset_iff)

lemma barsOnce_step: "barsOnce sb \<Longrightarrow> barsOnce (SkillBars_step ev sb)"
  by (cases ev) (simp_all add: barsOnce_callback barsOnce_handleScroll)

lemma barsOnce_setup: "barsOnce sb \<Longrightarrow> barsOnce (SkillBars_setupIntersectionObserver sb)"
  unfolding SkillBars_setupIntersectionObserver_def
  by (rule fold_preserves) (auto simp: barsOnce_def subset_iff)

lemma barsOnce_init: "barsOnce (SkillBars reducedMotion hasObserver elements)"
proof -
  have "barsOnce \<lparr>bars = elements, animatedBars = {}, barTargets = {},
                barPolling = False, widthTimers = []\<rparr>"
    by (simp add: barsOnce_def)
  then show ?thesis
    unfolding SkillBars_def Let_def
    by (simp add: barsOnce_setup) (simp add: barsOnce_def SkillBars_fallbackAnimation_def)
qed

lemma barsOnce_run:
  "barsOnce (fold SkillBars_step evs (SkillBars reducedMotion hasObserver elements))"
  by (rule fold_preserves) (simp_all add: barsOnce_init barsOnce_step)

lemma revealOnce_callback:
  "revealOnce sa \<Longrightarrow> distinct (map fst entries) \<Longrightarrow> fst ` set entries \<subseteq> observedTargets sa \<Longrightarrow>
   revealOnce (ScrollAnimations_callback children entries sa)"
  unfolding ScrollAnimations_callback_def
proof (induction entries arbitrary: sa)
  case Nil
  then show ?case by simp
next
  case (Cons e entries)
  obtain target isIntersecting where e: "e = (target, isIntersecting)" by (cases e)
  show ?case
  proof (cases isIntersecting)
    case False
    then show ?thesis using Cons e by simp
  next
    case True
    let ?sa = "(animateElement children target sa)\<lparr>
         observedTargets := observedTargets (animateElement children target sa) - {target},
         observedElements := observedElements (animateElement children target sa) - {target}\<rparr>"
    have 1: "revealOnce ?sa"
      using Cons.prems e by (auto simp: revealOnce_def animateElement_def)
    have 2: "fst ` set entries \<subseteq> observedTargets ?sa"
      using Cons.prems e by (auto simp: animateElement_def)
    have 3: "distinct (map fst entries)" using Cons.prems by simp
    show ?thesis using Cons.IH [OF 1 3 2] e True by (simp add: Let_def)
  qed
qed

lemma revealOnce_step:
  "revealOnce sa \<Longrightarrow> distinctTargets ev \<Longrightarrow> revealOnce (ScrollAnimations_step children ev sa)"
proof (cases ev)
  case (Intersection entries)
  assume "revealOnce sa" "distinctTargets ev"
  then show ?thesis using Intersection
    by (auto intro!: revealOnce_callback simp: distinct_map_filter)
next
  case (Scroll vp)
  assume "revealOnce sa"
  then show ?thesis using Scroll by (simp add: revealOnce_def)
qed

lemma revealOnce_setup_calls:
  "animateCalls (ScrollAnimations_setupIntersectionObserver sa) = animateCalls sa \<and>
   revealPolling (ScrollAnimations_setupIntersectionObserver sa) = revealPolling sa"
  unfolding ScrollAnimations_setupIntersectionObserver_def
  by (rule fold_preserves [where Inv = "\<lambda>s. animateCalls s = animateCalls sa \<and> revealPolling s = revealPolling sa"]) auto

lemma revealOnce_init: "revealOnce (ScrollAnimations reducedMotion True children vp elements)"
  unfolding ScrollAnimations_def Let_def
  by (simp add: revealOnce_def revealOnce_setup_calls)

lemma revealOnce_run:
  "list_all distinctTargets evs \<Longrightarrow> revealOnce sa \<Longrightarrow>
   revealOnce (fold (ScrollAnimations_step children) evs sa)"
  by (induction evs arbitrary: sa) (auto simp: revealOnce_step)

text \<open>
  The sibling paths. \<^verbatim>\<open>StatsCounter\<close> and \<^verbatim>\<open>SkillBars\<close> start the animation of an element
  at most once, under the observer and under scroll polling, whatever batches and scrolls
  arrive, and also when the observer callback is handed arbitrary batches, with repeated
  and with no longer observed targets: the visited set is checked before the animation
  starts. \<^verbatim>\<open>ScrollAnimations\<close> checks no visited set; under the observer it animates an
  element at most once as long as no batch names a target twice, because it stops
  observing the element.
\<close>

lemma reveal_siblings_at_most_once:
  "count_list (counterCalls (fold StatsCounter_step evs
      (StatsCounter reducedMotion hasObserver elements))) element \<le> 1 \<and>
   count_list (counterCalls (fold StatsCounter_callback batches
      (StatsCounter reducedMotion hasObserver elements))) element \<le> 1 \<and>
   count_list (widthTimers (fold SkillBars_step evs
      (SkillBars reducedMotion hasObserver elements))) element \<le> 1 \<and>
   count_list (widthTimers (fold SkillBars_callback batches
      (SkillBars reducedMotion hasObserver elements))) element \<le> 1 \<and>
   (list_all distinctTargets evs \<longrightarrow>
      count_list (animateCalls (fold (ScrollAnimations_step children) evs
        (ScrollAnimations reducedMotion True children vp elements))) element \<le> 1)"
proof (intro conjI impI)
  show "count_list (counterCalls (fold StatsCounter_step evs
      (StatsCounter reducedMotion hasObserver elements))) element \<le> 1"
    using statsOnce_run [of evs reducedMotion hasObserver elements]
    by (simp add: statsOnce_def distinct_count_le_1 [unfolded One_nat_def])
  show "count_list (widthTimers (fold SkillBars_step evs
      (SkillBars reducedMotion hasObserver elements))) element \<le> 1"
    using barsOnce_run [of evs reducedMotion hasObserver elements]
    by (simp add: barsOnce_def distinct_count_le_1 [unfolded One_nat_def])
  have "statsOnce (fold StatsCounter_callback batches
      (StatsCounter reducedMotion hasObserver elements))"
    by (rule fold_preserves) (simp_all add: statsOnce_init statsOnce_callback)
  then show "count_list (counterCalls (fold StatsCounter_callback batches
      (StatsCounter reducedMotion hasObserver elements))) element \<le> 1"
    by (simp add: statsOnce_def distinct_count_le_1 [unfolded One_nat_def])
  have "barsOnce (fold SkillBars_callback batches
      (SkillBars reducedMotion hasObserver elements))"
    by (rule fold_preserves) (simp_all add: barsOnce_init barsOnce_callback)
  then show "count_list (widthTimers (fold SkillBars_callback batches
      (SkillBars reducedMotion hasObserver elements))) element \<le> 1"
    by (simp add: barsOnce_def distinct_count_le_1 [unfolded One_nat_def])
  assume "list_all distinctTargets evs"
  then have "revealOnce (fold (ScrollAnimations_step children) evs
        (ScrollAnimations reducedMotion True children vp elements))"
    by (rule revealOnce_run) (rule revealOnce_init)
  then show "count_list (animateCalls (fold (ScrollAnimations_step children) evs
        (ScrollAnimations reducedMotion True children vp elements))) element \<le> 1"
    by (simp add: revealOnce_def distinct_count_le_1 [unfolded One_nat_def])
qed

text \<open>
  C4, on the code. Under scroll polling \<^verbatim>\<open>ScrollAnimations\<close> animates element 0, which
  lies in view, at construction and again at the next scroll: \<^const>\<open>animateElement\<close> runs
  twice and schedules the timeout of the stagger child twice, while the set of elements
  with the class \<^verbatim>\<open>animated\<close> stays the same. At the same input the fallbacks of
  \<^verbatim>\<open>StatsCounter\<close> and \<^verbatim>\<open>SkillBars\<close>, which check their visited sets, start their
  animation once in two scrolls.
\<close>

theorem ScrollAnimations_fallback_animates_again:
  "animateCalls (ScrollAnimations False False demoChildren demoViewport [0]) = [0] \<and>
   animateCalls (fold (ScrollAnimations_step demoChildren) [Scroll demoViewport]
      (ScrollAnimations False False demoChildren demoViewport [0])) = [0, 0] \<and>
   staggerTimers (fold (ScrollAnimations_step demoChildren) [Scroll demoViewport]
      (ScrollAnimations False False demoChildren demoViewport [0])) = [(7, 0), (7, 0)] \<and>
   animated (fold (ScrollAnimations_step demoChildren) [Scroll demoViewport]
      (ScrollAnimations False False demoChildren demoViewport [0])) = {0} \<and>
   counterCalls (fold StatsCounter_step [Scroll demoViewport, Scroll demoViewport]
      (StatsCounter False False [0])) = [0] \<and>
   widthTimers (fold SkillBars_step [Scroll demoViewport, Scroll demoViewport]
      (SkillBars False False [0])) = [0]"
  by (simp add: ScrollAnimations_def ScrollAnimations_fallbackAnimation_def
      ScrollAnimations_handleScroll_def animateElement_def isInViewport_def demoViewport_def
      demoChildren_def Let_def enumerate_eq_zip StatsCounter_def fallbackCounter_def
      StatsCounter_handleScroll_def SkillBars_def SkillBars_fallbackAnimation_def
      SkillBars_handleScroll_def)

section \<open>ContactForm: validation\<close>

lemma dropWhile_all: "(\<forall>x \<in> set (dropWhile P v). P x) \<longleftrightarrow> (\<forall>x \<in> set v. P x)"
  by (induction v) auto

lemma trim_all_space: "trim v = [] \<longleftrightarrow> (\<forall>c \<in> set v. isSpace c)"
  by (simp add: trim_def dropWhile_eq_Nil_conv dropWhile_all)

lemma regexTest_single_class: "regexTest [Plus p] v \<longleftrightarrow> v \<noteq> [] \<and> (\<forall>c \<in> set v. p c)"
proof (induction v)
  case Nil
  show ?case by simp
next
  case (Cons x xs)
  then show ?case by (cases xs) auto
qed

lemma validators_phone_chars:
  "validators_phone v \<longleftrightarrow>
     (\<forall>c \<in> set v. isDigit c \<or> isSpace c \<or> c \<in> {CHR ''-'', CHR ''+'', CHR ''('', CHR '')''})"
  by (cases "v = []") (auto simp: validators_phone_def phoneRegex_def regexTest_single_class)

lemma email_example: "validators_email ''user@example.com''"
  by (simp add: validators_email_def emailRegex_def Let_def isSpace_def)

lemma phone_examples: "\<not> validators_phone ''abc''" "validators_phone ''+1 (555) 123-4567''"
  by (simp_all add: validators_phone_chars isSpace_def isDigit_def)

lemma trim_examples: "trim ''abc'' = ''abc''" "trim ''+1 (555) 123-4567'' = ''+1 (555) 123-4567''"
  "trim ''user@example.com'' = ''user@example.com''" "trim '' abc  '' = ''abc''"
  by (simp_all add: trim_def isSpace_def)

lemma validateField_required_empty:
  "required f \<Longrightarrow> trim (fieldValue f) = [] \<Longrightarrow>
   validateField f =
     (False, f\<lparr>hasError := True,
               errorElement := (case errorElement f of None \<Rightarrow> None
                                | Some old \<Rightarrow> Some ''This field is required'')\<rparr>)"
  by (simp add: validateField_def Let_def)

lemma handleSubmit_blocked:
  assumes "f \<in> set (formFields cf)" "required f" "trim (fieldValue f) = []"
  shows "handleSubmit success cf =
           cf\<lparr>formFields := map (\<lambda>f. if required f then snd (validateField f) else f) (formFields cf),
              notifications := notifications cf @ [(''Please fix the errors above'', ''error'')]\<rparr>"
proof -
  have "\<not> fst (validateField f)"
    using assms by (simp add: validateField_required_empty)
  then have "\<not> list_all (\<lambda>f. fst (validateField f)) (filter required (formFields cf))"
    using assms(1,2) by (auto simp: list_all_iff)
  then show ?thesis
    by (simp add: handleSubmit_def Let_def)
qed

text \<open>
  C7. A required field whose value is empty after trimming fails \<^const>\<open>validateField\<close>,
  gets the class \<^verbatim>\<open>error\<close> and, where an error element exists, the message; a form that
  holds such a field is not submitted and shows the error notification. The value
  \<open>user@example.com\<close> passes the email validator, also through \<^const>\<open>validateField\<close> on
  a field of type email. On a field named \<open>phone\<close> the value \<open>abc\<close> fails and the value
  \<open>+1 (555) 123-4567\<close> passes; the phone validator accepts exactly the values made of
  digits, white space and the four symbols.
\<close>

theorem contact_form_validation:
  "(required f \<and> trim (fieldValue f) = [] \<longrightarrow>
      \<not> fst (validateField f) \<and> hasError (snd (validateField f)) \<and>
      (errorElement f \<noteq> None \<longrightarrow>
         errorElement (snd (validateField f)) = Some ''This field is required'')) \<and>
   (f \<in> set (formFields cf) \<and> required f \<and> trim (fieldValue f) = [] \<longrightarrow>
      submissions (handleSubmit success cf) = submissions cf \<and>
      notifications (handleSubmit success cf) =
        notifications cf @ [(''Please fix the errors above'', ''error'')] \<and>
      snd (validateField f) \<in> set (formFields (handleSubmit success cf))) \<and>
   validators_email ''user@example.com'' \<and>
   (fieldType g = ''email'' \<and> fieldName g \<noteq> ''phone'' \<longrightarrow>
      fst (validateField (g\<lparr>fieldValue := ''user@example.com''\<rparr>))) \<and>
   \<not> validators_phone ''abc'' \<and>
   validators_phone ''+1 (555) 123-4567'' \<and>
   (fieldName g = ''phone'' \<longrightarrow> \<not> fst (validateField (g\<lparr>fieldValue := ''abc''\<rparr>))) \<and>
   (fieldName g = ''phone'' \<and> fieldType g \<noteq> ''email'' \<longrightarrow>
      fst (validateField (g\<lparr>fieldValue := ''+1 (555) 123-4567''\<rparr>))) \<and>
   (validators_phone v \<longleftrightarrow>
      (\<forall>c \<in> set v. isDigit c \<or> isSpace c \<or> c \<in> {CHR ''-'', CHR ''+'', CHR ''('', CHR '')''}))"
proof (intro conjI impI)
  assume a: "required f \<and> trim (fieldValue f) = []"
  then show "\<not> fst (validateField f)" "hasError (snd (validateField f))"
    by (simp_all add: validateField_required_empty)
  assume "errorElement f \<noteq> None"
  then show "errorElement (snd (validateField f)) = Some ''This field is required''"
    using a by (auto simp: validateField_required_empty)
next
  assume a: "f \<in> set (formFields cf) \<and> required f \<and> trim (fieldValue f) = []"
  then have b: "handleSubmit success cf =
           cf\<lparr>formFields := map (\<lambda>f. if required f then snd (validateField f) else f) (formFields cf),
              notifications := notifications cf @ [(''Please fix the errors above'', ''error'')]\<rparr>"
    using handleSubmit_blocked [of f cf success] by blast
  show "submissions (handleSubmit success cf) = submissions cf"
    "notifications (handleSubmit success cf) =
        notifications cf @ [(''Please fix the errors above'', ''error'')]"
    by (simp_all add: b)
  have "(\<lambda>f. if required f then snd (validateField f) else f) f \<in>
          (\<lambda>f. if required f then snd (validateField f) else f) ` set (formFields cf)"
    using a by (intro imageI) simp
  then show "snd (validateField f) \<in> set (formFields (handleSubmit success cf))"
    using a unfolding b by simp
next
  show "validators_email ''user@example.com''" by (rule email_example)
  show "\<not> validators_phone ''abc''" "validators_phone ''+1 (555) 123-4567''"
    by (rule phone_examples)+
  show "validators_phone v \<longleftrightarrow>
      (\<forall>c \<in> set v. isDigit c \<or> isSpace c \<or> c \<in> {CHR ''-'', CHR ''+'', CHR ''('', CHR '')''})"
    by (rule validators_phone_chars)
next
  assume "fieldType g = ''email'' \<and> fieldName g \<noteq> ''phone''"
  then show "fst (validateField (g\<lparr>fieldValue := ''user@example.com''\<rparr>))"
    by (simp add: validateField_def Let_def trim_examples email_example)
next
  assume "fieldName g = ''phone''"
  then show "\<not> fst (validateField (g\<lparr>fieldValue := ''abc''\<rparr>))"
    by (simp add: validateField_def Let_def trim_examples phone_examples)
next
  assume "fieldName g = ''phone'' \<and> fieldType g \<noteq> ''email''"
  then show "fst (validateField (g\<lparr>fieldValue := ''+1 (555) 123-4567''\<rparr>))"
    by (simp add: validateField_def Let_def trim_examples phone_examples)
qed

theorem contact_form_validation_witness:
  "(required (demoField ''name'' ''text'' ''   '' True) \<and>
    trim (fieldValue (demoField ''name'' ''text'' ''   '' True)) = []) \<and>
   \<not> fst (validateField (demoField ''name'' ''text'' ''   '' True)) \<and>
   submissions (handleSubmit True
     \<lparr>formFields = [demoField ''name'' ''text'' ''   '' True], notifications = [],
      submissions = 0\<rparr>) = 0 \<and>
   fst (validateField ((demoField ''email'' ''email'' [] True)
          \<lparr>fieldValue := ''user@example.com''\<rparr>)) \<and>
   \<not> fst (validateField ((demoField ''phone'' ''tel'' [] False)\<lparr>fieldValue := ''abc''\<rparr>)) \<and>
   fst (validateField ((demoField ''phone'' ''tel'' [] False)
          \<lparr>fieldValue := ''+1 (555) 123-4567''\<rparr>))"
proof -
  note t = contact_form_validation [where f = "demoField ''name'' ''text'' ''   '' True"
      and cf = "\<lparr>formFields = [demoField ''name'' ''text'' ''   '' True], notifications = [],
                 submissions = 0\<rparr>"
      and success = True and g = "demoField ''phone'' ''tel'' [] False"]
  note u = contact_form_validation [where g = "demoField ''email'' ''email'' [] True"]
  have h1: "required (demoField ''name'' ''text'' ''   '' True) \<and>
            trim (fieldValue (demoField ''name'' ''text'' ''   '' True)) = []"
    by (simp add: demoField_def trim_def isSpace_def)
  have h2: "demoField ''name'' ''text'' ''   '' True \<in>
              set (formFields \<lparr>formFields = [demoField ''name'' ''text'' ''   '' True],
                                notifications = [], submissions = 0\<rparr>) \<and>
            required (demoField ''name'' ''text'' ''   '' True) \<and>
            trim (fieldValue (demoField ''name'' ''text'' ''   '' True)) = []"
    using h1 by simp
  have h3: "fieldType (demoField ''email'' ''email'' [] True) = ''email'' \<and>
            fieldName (demoField ''email'' ''email'' [] True) \<noteq> ''phone''"
    by (simp add: demoField_def)
  have h4: "fieldName (demoField ''phone'' ''tel'' [] False) = ''phone''"
    by (simp add: demoField_def)
  have h5: "fieldName (demoField ''phone'' ''tel'' [] False) = ''phone'' \<and>
            fieldType (demoField ''phone'' ''tel'' [] False) \<noteq> ''email''"
    by (simp add: demoField_def)
  note c1 = t [THEN conjunct1, rule_format, OF h1, THEN conjunct1]
  have c2: "submissions (handleSubmit True
     \<lparr>formFields = [demoField ''name'' ''text'' ''   '' True], notifications = [],
      submissions = 0\<rparr>) = 0"
    using t [THEN conjunct2, THEN conjunct1, rule_format, OF h2, THEN conjunct1] by simp
  note c3 = u [THEN conjunct2, THEN conjunct2, THEN conjunct2, THEN conjunct1, rule_format, OF h3]
  note c4 = t [THEN conjunct2, THEN conjunct2, THEN conjunct2, THEN conjunct2, THEN conjunct2,
      THEN conjunct2, THEN conjunct1, rule_format, OF h4]
  note c5 = t [THEN conjunct2, THEN conjunct2, THEN conjunct2, THEN conjunct2, THEN conjunct2,
      THEN conjunct2, THEN conjunct2, THEN conjunct1, rule_format, OF h5]
  show ?thesis
    by (intro conjI h1 [THEN conjunct1] h1 [THEN conjunct2] c1 c2 c3 c4 c5)
qed

section \<open>LazyLoader: when the source is assigned\<close>

lemma loadImage_facts:
  "document (loadImage i ll) = document ll" "imageTargets (loadImage i ll) = imageTargets ll"
  "images (loadImage i ll) = images ll"
  "fst ` set (preloads (loadImage i ll)) \<subseteq> insert i (fst ` set (preloads ll))"
  by (auto simp: loadImage_def split: option.splits)

lemma callback_facts:
  "document (LazyLoader_callback entries ll) = document ll \<and>
   imageTargets (LazyLoader_callback entries ll) \<subseteq> imageTargets ll \<and>
   fst ` set (preloads (LazyLoader_callback entries ll)) \<subseteq>
     fst ` set (preloads ll) \<union> fst ` set (filter snd entries)"
  unfolding LazyLoader_callback_def
proof (rule fold_preserves [where Inv = "\<lambda>s. document s = document ll \<and>
        imageTargets s \<subseteq> imageTargets ll \<and>
        fst ` set (preloads s) \<subseteq> fst ` set (preloads ll) \<union> fst ` set (filter snd entries)"])
  show "document ll = document ll \<and> imageTargets ll \<subseteq> imageTargets ll \<and>
        fst ` set (preloads ll) \<subseteq> fst ` set (preloads ll) \<union> fst ` set (filter snd entries)"
    by simp
next
  fix e and s :: lazyLoader
  assume e: "e \<in> set entries"
    and s: "document s = document ll \<and> imageTargets s \<subseteq> imageTargets ll \<and>
      fst ` set (preloads s) \<subseteq> fst ` set (preloads ll) \<union> fst ` set (filter snd entries)"
  obtain target isIntersecting where t: "e = (target, isIntersecting)" by (cases e)
  let ?s = "(case e of (target, isIntersecting) \<Rightarrow> \<lambda>ll.
              if isIntersecting then
                (let ll1 = loadImage target ll
                 in ll1\<lparr>imageTargets := imageTargets ll1 - {target}\<rparr>)
              else ll) s"
  show "document ?s = document ll \<and> imageTargets ?s \<subseteq> imageTargets ll \<and>
        fst ` set (preloads ?s) \<subseteq> fst ` set (preloads ll) \<union> fst ` set (filter snd entries)"
  proof (cases isIntersecting)
    case False
    then show ?thesis using s t by simp
  next
    case True
    then have near: "target \<in> fst ` set (filter snd entries)"
      using e t by force
    have eq: "?s = (loadImage target s)\<lparr>imageTargets := imageTargets (loadImage target s) - {target}\<rparr>"
      using t True by (simp add: Let_def)
    have "fst ` set (preloads (loadImage target s)) \<subseteq>
            fst ` set (preloads ll) \<union> fst ` set (filter snd entries)"
      using loadImage_facts(4) [of target s] s near by blast
    then show ?thesis
      unfolding eq using s loadImage_facts(1,2) [of target s] by auto
  qed
qed

lemma filter_near: "fst ` set (filter snd (filter P entries)) \<subseteq> fst ` set (filter snd entries)"
  by auto

lemma untouched_step:
  assumes "untouched page seen ll"
  shows "untouched page (seen \<union> reportedNear [ev]) (LazyLoader_step ev ll)"
proof (cases ev)
  case (Observed entries)
  let ?es = "filter (\<lambda>e. fst e \<in> imageTargets ll) entries"
  have "fst ` set (preloads (LazyLoader_callback ?es ll)) \<subseteq>
          fst ` set (preloads ll) \<union> fst ` set (filter snd entries)"
    using callback_facts [of ?es ll] filter_near [of "\<lambda>e. fst e \<in> imageTargets ll" entries]
    by blast
  then show ?thesis
    using assms Observed callback_facts [of ?es ll]
    unfolding untouched_def by (simp del: set_filter) blast
next
  case (Loaded i url)
  show ?thesis
  proof (cases "(i, url) \<in> set (preloads ll)")
    case True
    then have "i \<in> seen" using assms unfolding untouched_def by force
    moreover have "set (remove1 (i, url) (preloads ll)) \<subseteq> set (preloads ll)"
      by (rule set_remove1_subset)
    ultimately show ?thesis
      using assms Loaded True unfolding untouched_def by (auto simp: onload_def)
  next
    case False
    then show ?thesis using assms Loaded by simp
  qed
next
  case (Failed i url)
  show ?thesis
  proof (cases "(i, url) \<in> set (preloads ll)")
    case True
    then have "i \<in> seen" using assms unfolding untouched_def by force
    moreover have "set (remove1 (i, url) (preloads ll)) \<subseteq> set (preloads ll)"
      by (rule set_remove1_subset)
    ultimately show ?thesis
      using assms Failed True unfolding untouched_def by (auto simp: onerror_def)
  next
    case False
    then show ?thesis using assms Failed by simp
  qed
qed

lemma reportedNear_Cons: "reportedNear (ev # evs) = reportedNear [ev] \<union> reportedNear evs"
  by (cases ev) auto

lemma untouched_run:
  "untouched page seen ll \<Longrightarrow> untouched page (seen \<union> reportedNear evs) (fold LazyLoader_step evs ll)"
proof (induction evs arbitrary: seen ll)
  case Nil
  then show ?case by simp
next
  case (Cons ev evs)
  have "untouched page ((seen \<union> reportedNear [ev]) \<union> reportedNear evs)
          (fold LazyLoader_step evs (LazyLoader_step ev ll))"
    by (rule Cons.IH) (rule untouched_step [OF Cons.prems])
  then show ?case
    by (subst reportedNear_Cons) (simp add: Un_assoc)
qed

lemma setup_facts:
  "document (LazyLoader_setupIntersectionObserver ll) = document ll \<and>
   preloads (LazyLoader_setupIntersectionObserver ll) = preloads ll"
  unfolding LazyLoader_setupIntersectionObserver_def
  by (rule fold_preserves) auto

lemma untouched_init: "untouched page {} (LazyLoader True page selected)"
  by (simp add: LazyLoader_def Let_def untouched_def setup_facts)

lemma settled_step: "settled i ll \<Longrightarrow>
  settled i (LazyLoader_step ev ll) \<and> document (LazyLoader_step ev ll) i = document ll i"
proof (cases ev)
  case (Observed entries)
  assume a: "settled i ll"
  let ?es = "filter (\<lambda>e. fst e \<in> imageTargets ll) entries"
  have "i \<notin> fst ` set (filter snd ?es)" using a by (auto simp: settled_def)
  then show ?thesis
    using a Observed callback_facts [of ?es ll] unfolding settled_def
    by (simp del: set_filter) blast
next
  case (Loaded j url)
  assume a: "settled i ll"
  have "set (remove1 (j, url) (preloads ll)) \<subseteq> set (preloads ll)"
    by (rule set_remove1_subset)
  then show ?thesis
    using a Loaded unfolding settled_def by (force simp: onload_def)
next
  case (Failed j url)
  assume a: "settled i ll"
  have "set (remove1 (j, url) (preloads ll)) \<subseteq> set (preloads ll)"
    by (rule set_remove1_subset)
  then show ?thesis
    using a Failed unfolding settled_def by (force simp: onerror_def)
qed

lemma settled_run:
  "settled i ll \<Longrightarrow> document (fold LazyLoader_step evs ll) i = document ll i"
proof (induction evs arbitrary: ll)
  case Nil
  show ?case by simp
next
  case (Cons ev evs)
  then show ?case using settled_step [of i ll ev] by simp
qed

lemma fallback_preloads:
  "i \<in> set xs \<Longrightarrow> dataSrc (document ll i) = Some url \<Longrightarrow> url \<noteq> [] \<Longrightarrow>
   (i, url) \<in> set (preloads (fold loadImage xs ll))"
proof (induction xs arbitrary: ll)
  case Nil
  then show ?case by simp
next
  case (Cons x xs)
  have keep: "set (preloads s) \<subseteq> set (preloads (fold loadImage ys s))" for ys s
    by (rule fold_preserves [where Inv = "\<lambda>t. set (preloads s) \<subseteq> set (preloads t)"])
       (auto simp: loadImage_def split: option.splits)
  show ?case
  proof (cases "x = i")
    case True
    then have "(i, url) \<in> set (preloads (loadImage x ll))"
      using Cons.prems by (simp add: loadImage_def)
    then show ?thesis using keep [of "loadImage x ll" xs] by auto
  next
    case False
    then have "i \<in> set xs" using Cons.prems by simp
    moreover have "dataSrc (document (loadImage x ll) i) = Some url"
      using Cons.prems by (simp add: loadImage_facts)
    ultimately show ?thesis using Cons.IH Cons.prems(3) by simp
  qed
qed

lemma setup_targets:
  "imageTargets (LazyLoader_setupIntersectionObserver ll) = imageTargets ll \<union> set (images ll)"
proof -
  have "imageTargets (fold (\<lambda>i ll. ll\<lparr>imageTargets := insert i (imageTargets ll)\<rparr>) xs ll) =
        imageTargets ll \<union> set xs" for xs
    by (induction xs arbitrary: ll) auto
  then show ?thesis by (simp add: LazyLoader_setupIntersectionObserver_def)
qed

lemma observer_failure_settles:
  assumes "i \<in> set selected" "dataSrc (page i) = Some url" "url \<noteq> []"
  shows "settled i (fold LazyLoader_step [Observed [(i, True)], Failed i url]
            (LazyLoader True page selected)) \<and>
         src (document (fold LazyLoader_step [Observed [(i, True)], Failed i url]
            (LazyLoader True page selected)) i) = src (page i)"
proof -
  let ?ll = "LazyLoader True page selected"
  have ne: "selected \<noteq> []" using assms(1) by auto
  have init: "document ?ll = page" "preloads ?ll = []" "imageTargets ?ll = set selected"
    using ne by (simp_all add: LazyLoader_def Let_def setup_facts setup_targets)
  have 1: "LazyLoader_step (Observed [(i, True)]) ?ll =
           ?ll\<lparr>preloads := [(i, url)], imageTargets := set selected - {i}\<rparr>"
    using assms init by (simp add: LazyLoader_callback_def loadImage_def Let_def)
  have 2: "fold LazyLoader_step [Observed [(i, True)], Failed i url] ?ll =
           LazyLoader_step (Failed i url)
             (?ll\<lparr>preloads := [(i, url)], imageTargets := set selected - {i}\<rparr>)"
    by (simp only: fold_simps 1)
  show ?thesis
    unfolding 2 using init by (simp add: settled_def onerror_def)
qed

lemma fallback_preloads_of:
  "distinct xs \<Longrightarrow>
   filter (\<lambda>p. fst p = i) (preloads (fold loadImage xs ll)) =
     filter (\<lambda>p. fst p = i) (preloads ll) @
     (if i \<in> set xs then
        (case dataSrc (document ll i) of None \<Rightarrow> []
         | Some url \<Rightarrow> if url = [] then [] else [(i, url)])
      else [])"
proof (induction xs arbitrary: ll)
  case Nil
  show ?case by simp
next
  case (Cons x xs)
  have d: "distinct xs" "x \<notin> set xs" using Cons.prems by simp_all
  show ?case
    using Cons.IH [OF d(1), of "loadImage x ll"] d(2)
    by (auto simp: loadImage_facts) (auto simp: loadImage_def split: option.splits)
qed

lemma fallback_failure_settles:
  assumes "distinct selected" "i \<in> set selected" "dataSrc (page i) = Some url" "url \<noteq> []"
  shows "settled i (LazyLoader_step (Failed i url) (LazyLoader False page selected)) \<and>
         src (document (LazyLoader_step (Failed i url) (LazyLoader False page selected)) i) =
           src (page i)"
proof -
  let ?empty = "\<lparr>images = selected, document = page, imageTargets = {}, preloads = []\<rparr>"
  let ?ll = "LazyLoader False page selected"
  have ne: "selected \<noteq> []" using assms(2) by auto
  have ll: "?ll = fold loadImage selected ?empty"
    using ne by (simp add: LazyLoader_def Let_def fallbackLoading_def)
  have doc: "document ?ll = page" and tg: "imageTargets ?ll = {}"
    unfolding ll
    by (rule fold_preserves [where Inv = "\<lambda>s. document s = page"], simp_all add: loadImage_facts)
       (rule fold_preserves [where Inv = "\<lambda>s. imageTargets s = {}"], simp_all add: loadImage_facts)
  have f: "filter (\<lambda>p. fst p = i) (preloads ?ll) = [(i, url)]"
    unfolding ll using fallback_preloads_of [OF assms(1), of i ?empty] assms by simp
  have "(i, url) \<in> set (filter (\<lambda>p. fst p = i) (preloads ?ll))"
    by (simp only: f list.set_intros)
  then have mem: "(i, url) \<in> set (preloads ?ll)"
    by simp
  have "filter (\<lambda>p. fst p = i) (remove1 (i, url) (preloads ?ll)) = []"
    by (simp add: filter_remove1 f)
  then have "i \<notin> fst ` set (remove1 (i, url) (preloads ?ll))"
    by (auto simp: filter_empty_conv)
  then show ?thesis
    using mem doc tg by (simp add: settled_def onerror_def)
qed

text \<open>
  C2, amended. Under the observer an image stays exactly as on the page until a batch has
  reported it as intersecting. Without \<^verbatim>\<open>IntersectionObserver\<close> the constructor starts
  the preload of every selected image that has a non-empty \<^verbatim>\<open>data-src\<close>, nothing is
  observed, and the source is assigned as soon as the preload succeeds. On both strategies
  a failed preload leaves \<^verbatim>\<open>src\<close> as it was, whatever happens afterwards: the error
  handler adds the class \<^verbatim>\<open>error\<close>, starts no new preload and observes nothing again, and
  an image without outstanding preload that is not observed never changes.
\<close>

theorem lazy_loading_strategies:
  "(i \<notin> reportedNear evs \<longrightarrow>
      document (fold LazyLoader_step evs (LazyLoader True page selected)) i = page i) \<and>
   (i \<in> set selected \<and> dataSrc (page i) = Some url \<and> url \<noteq> [] \<longrightarrow>
      (i, url) \<in> set (preloads (LazyLoader False page selected)) \<and>
      imageTargets (LazyLoader False page selected) = {} \<and>
      src (document (LazyLoader_step (Loaded i url) (LazyLoader False page selected)) i) = url) \<and>
   (i \<in> set selected \<and> dataSrc (page i) = Some url \<and> url \<noteq> [] \<longrightarrow>
      src (document (fold LazyLoader_step ([Observed [(i, True)], Failed i url] @ evs)
             (LazyLoader True page selected)) i) = src (page i)) \<and>
   (distinct selected \<and> i \<in> set selected \<and> dataSrc (page i) = Some url \<and> url \<noteq> [] \<longrightarrow>
      src (document (fold LazyLoader_step (Failed i url # evs)
             (LazyLoader False page selected)) i) = src (page i)) \<and>
   ((i, url) \<in> set (preloads ll) \<longrightarrow>
      document (LazyLoader_step (Failed i url) ll) i =
        (document ll i)\<lparr>classes := insert ''error'' (classes (document ll i))\<rparr> \<and>
      preloads (LazyLoader_step (Failed i url) ll) = remove1 (i, url) (preloads ll) \<and>
      imageTargets (LazyLoader_step (Failed i url) ll) = imageTargets ll) \<and>
   (settled i ll \<longrightarrow> document (fold LazyLoader_step evs ll) i = document ll i)"
proof (intro conjI impI)
  have "untouched page ({} \<union> reportedNear evs)
          (fold LazyLoader_step evs (LazyLoader True page selected))"
    by (rule untouched_run) (rule untouched_init)
  moreover assume "i \<notin> reportedNear evs"
  ultimately show "document (fold LazyLoader_step evs (LazyLoader True page selected)) i = page i"
    by (simp add: untouched_def)
next
  assume a: "i \<in> set selected \<and> dataSrc (page i) = Some url \<and> url \<noteq> []"
  then have ne: "selected \<noteq> []" by auto
  have ll: "LazyLoader False page selected =
        fold loadImage selected \<lparr>images = selected, document = page, imageTargets = {}, preloads = []\<rparr>"
    using ne by (simp add: LazyLoader_def Let_def fallbackLoading_def)
  show p: "(i, url) \<in> set (preloads (LazyLoader False page selected))"
    unfolding ll using a by (intro fallback_preloads) simp_all
  show "imageTargets (LazyLoader False page selected) = {}"
    unfolding ll
    by (rule fold_preserves [where Inv = "\<lambda>s. imageTargets s = {}"]) (simp_all add: loadImage_facts)
  show "src (document (LazyLoader_step (Loaded i url) (LazyLoader False page selected)) i) = url"
    using p by (simp add: onload_def)
next
  assume a: "i \<in> set selected \<and> dataSrc (page i) = Some url \<and> url \<noteq> []"
  let ?ll = "fold LazyLoader_step [Observed [(i, True)], Failed i url] (LazyLoader True page selected)"
  have s: "settled i ?ll" "src (document ?ll i) = src (page i)"
    using observer_failure_settles [of i selected page url] a by blast+
  have "document (fold LazyLoader_step evs ?ll) i = document ?ll i"
    using s(1) by (rule settled_run)
  then show "src (document (fold LazyLoader_step ([Observed [(i, True)], Failed i url] @ evs)
             (LazyLoader True page selected)) i) = src (page i)"
    using s(2) by (simp only: fold_append comp_apply)
next
  assume a: "distinct selected \<and> i \<in> set selected \<and> dataSrc (page i) = Some url \<and> url \<noteq> []"
  let ?ll = "LazyLoader_step (Failed i url) (LazyLoader False page selected)"
  have s: "settled i ?ll" "src (document ?ll i) = src (page i)"
    using fallback_failure_settles [of selected i page url] a by blast+
  have "document (fold LazyLoader_step evs ?ll) i = document ?ll i"
    using s(1) by (rule settled_run)
  then show "src (document (fold LazyLoader_step (Failed i url # evs)
             (LazyLoader False page selected)) i) = src (page i)"
    using s(2) by (simp only: fold_simps)
next
  assume "(i, url) \<in> set (preloads ll)"
  then show "document (LazyLoader_step (Failed i url) ll) i =
        (document ll i)\<lparr>classes := insert ''error'' (classes (document ll i))\<rparr>"
    "preloads (LazyLoader_step (Failed i url) ll) = remove1 (i, url) (preloads ll)"
    "imageTargets (LazyLoader_step (Failed i url) ll) = imageTargets ll"
    by (simp_all add: onerror_def)
next
  assume "settled i ll"
  then show "document (fold LazyLoader_step evs ll) i = document ll i"
    by (rule settled_run)
qed

theorem lazy_loading_strategies_witness:
  "0 \<notin> reportedNear [Observed [(0, False), (1, True)], Loaded 1 ''photo.jpg''] \<and>
   document (fold LazyLoader_step [Observed [(0, False), (1, True)], Loaded 1 ''photo.jpg'']
      (LazyLoader True demoPage [0, 1])) 0 = demoPage 0 \<and>
   (0 \<in> set [0, 1::nat] \<and> dataSrc (demoPage 0) = Some ''photo.jpg'' \<and> ''photo.jpg'' \<noteq> []) \<and>
   (0, ''photo.jpg'') \<in> set (preloads (LazyLoader False demoPage [0, 1])) \<and>
   src (document (fold LazyLoader_step
          ([Observed [(0, True)], Failed 0 ''photo.jpg''] @
           [Observed [(0, False), (1, True)], Loaded 1 ''photo.jpg''])
          (LazyLoader True demoPage [0, 1])) 0) = src (demoPage 0) \<and>
   src (document (fold LazyLoader_step
          (Failed 0 ''photo.jpg'' # [Observed [(0, False), (1, True)], Loaded 1 ''photo.jpg''])
          (LazyLoader False demoPage [0, 1])) 0) = src (demoPage 0)"
proof -
  note t = lazy_loading_strategies [where i = 0 and page = demoPage and selected = "[0, 1]"
        and url = "''photo.jpg''"
        and evs = "[Observed [(0, False), (1, True)], Loaded 1 ''photo.jpg'']"]
  have h1: "0 \<notin> reportedNear [Observed [(0, False), (1, True)], Loaded 1 ''photo.jpg'']"
    by simp
  have h2: "0 \<in> set [0, 1::nat] \<and> dataSrc (demoPage 0) = Some ''photo.jpg'' \<and> ''photo.jpg'' \<noteq> []"
    by (simp add: demoPage_def)
  have h3: "distinct [0, 1::nat] \<and> 0 \<in> set [0, 1::nat] \<and>
            dataSrc (demoPage 0) = Some ''photo.jpg'' \<and> ''photo.jpg'' \<noteq> []"
    by (simp add: demoPage_def)
  note c1 = t [THEN conjunct1, rule_format, OF h1]
  note c2 = t [THEN conjunct2, THEN conjunct1, rule_format, OF h2, THEN conjunct1]
  note c3 = t [THEN conjunct2, THEN conjunct2, THEN conjunct1, rule_format, OF h2]
  note c4 = t [THEN conjunct2, THEN conjunct2, THEN conjunct2, THEN conjunct1, rule_format, OF h3]
  show ?thesis
    by (intro conjI h1 h2 c1 c2 c3 c4)
qed

text \<open>
  C2, as stated, without \<^verbatim>\<open>IntersectionObserver\<close>: no batch ever reports image 0, and
  yet it gets its real source when its preload, started by the constructor, succeeds.
\<close>

theorem lazy_fallback_counterexample:
  "reportedNear [Loaded 0 ''photo.jpg''] = {} \<and>
   src (demoPage 0) = ''placeholder.gif'' \<and>
   src (document (fold LazyLoader_step [Loaded 0 ''photo.jpg''] (LazyLoader False demoPage [0])) 0)
     = ''photo.jpg''"
  by (simp add: LazyLoader_def fallbackLoading_def loadImage_def onload_def demoPage_def Let_def)

end
